theory Spec2Isabelle
  imports Complex_Main "HOL-Library.Log_Nat"
begin

section \<open>Data model of \<^verbatim>\<open>tabbycat/results/views.py\<close>\<close>

text \<open>
  The views work on Django model tables. A table is a list of rows and the primary key
  of a row is its position in the list, so that primary keys are unique by construction
  and a lookup by primary key of a row that does not exist is a value of its own
  (\<open>None\<close>, which the callers turn into \<^verbatim>\<open>DoesNotExist\<close> or \<^verbatim>\<open>Http404\<close>).
\<close>

definition lookup :: "'a list \<Rightarrow> nat \<Rightarrow> 'a option" where
  "lookup rows pk = (if pk < length rows then Some (rows ! pk) else None)"

text \<open>The four values of \<^verbatim>\<open>Debate.result_status\<close> that the views name.\<close>

datatype result_status = STATUS_NONE | STATUS_POSTPONED | STATUS_DRAFT | STATUS_CONFIRMED

text \<open>
  A \<^verbatim>\<open>Debate\<close> row: its round, its (nullable) venue, the short names of its two teams,
  its result status, the physical check-in flag, and whether its panel has a chair
  (\<^verbatim>\<open>debate.adjudicators.has_chair\<close>).
\<close>

record debate =
  round_id :: nat
  venue_id :: "nat option"
  aff_team :: string
  neg_team :: string
  result_status :: result_status
  ballot_in :: bool
  has_chair :: bool

datatype submitter_type = SUBMITTER_TABROOM | SUBMITTER_PUBLIC

text \<open>
  A \<^verbatim>\<open>BallotSubmission\<close> row. Time stamps are microseconds on the clock of
  \<^verbatim>\<open>datetime.datetime.now()\<close>; the scoring content is opaque and only compared.
\<close>

record ballotsub =
  debate_id :: nat
  version :: nat
  submitter :: "nat option"
  submitter_type :: submitter_type
  ip_address :: string
  confirmed :: bool
  discarded :: bool
  timestamp :: int
  confirmer :: "nat option"
  confirm_timestamp :: "int option"
  content :: nat

record debateadjudicator =
  da_adjudicator :: nat
  da_debate :: nat

text \<open>
  A \<^verbatim>\<open>Round\<close>: its primary key and the two attributes that \<^verbatim>\<open>public_new_ballotset\<close>
  reads. Only \<^verbatim>\<open>Round.STATUS_RELEASED\<close> is named by the views; every other draw
  status is \<open>STATUS_UNRELEASED\<close> here.
\<close>

datatype draw_status = STATUS_RELEASED | STATUS_UNRELEASED

record round =
  round_pk :: nat
  draw_status :: draw_status
  motions_released :: bool

datatype action_type =
    ACTION_TYPE_BALLOT_DISCARD
  | ACTION_TYPE_BALLOT_CONFIRM
  | ACTION_TYPE_BALLOT_EDIT
  | ACTION_TYPE_BALLOT_SUBMIT
  | ACTION_TYPE_BALLOT_CREATE
  | ACTION_TYPE_BALLOT_CHECKIN

record actionlogentry =
  log_type :: action_type
  log_user :: "nat option"
  log_ballot_submission :: "nat option"
  log_debate :: "nat option"

text \<open>The database: one list per table; \<open>venues\<close> holds the venue names.\<close>

record db =
  debates :: "debate list"
  venues :: "string list"
  ballotsubs :: "ballotsub list"
  debateadjudicators :: "debateadjudicator list"
  actionlog :: "actionlogentry list"

text \<open>
  The requesting user and the tournament, as far as the views read them. The decorators
  \<^verbatim>\<open>login_required\<close> and \<^verbatim>\<open>tournament_view\<close> have run before a view body
  does: the user is authenticated and the tournament is resolved.
\<close>

record user =
  user_id :: nat
  is_superuser :: bool

record tournament =
  current_round :: round
  disable_ballot_confirms :: bool

text \<open>
  Exceptions that leave a view, and the one that \<^verbatim>\<open>post_ballot_checkin\<close> catches.
  \<^verbatim>\<open>DebateBallotCheckinError\<close> is raised with three different messages; the message
  is kept as a value of \<open>checkin_message\<close> and \<open>message_text\<close> renders it.
\<close>

datatype checkin_message =
    NoVenueNamed string
  | NoDebateInVenue string
  | AlreadyCheckedIn string

datatype exn =
    DoesNotExist
  | MultipleObjectsReturned
  | Http404
  | AttributeError
  | DebateBallotCheckinError checkin_message

fun message_text :: "checkin_message \<Rightarrow> string" where
  \<open>message_text (NoVenueNamed v) = ''There aren't any venues with the name "'' @ v @ ''".''\<close>
| \<open>message_text (NoDebateInVenue n) = ''There wasn't a debate in venue '' @ n @ '' this round.''\<close>
| \<open>message_text (AlreadyCheckedIn n) =
     ''The ballot for venue '' @ n @ '' has already been checked in.''\<close>

text \<open>The flash messages of \<^verbatim>\<open>django.contrib.messages\<close> that the views emit.\<close>

datatype flash =
    NoChairMessage
  | AddedMessage
  | DiscardedMessage
  | ConfirmedMessage
  | EditedMessage

section \<open>\<^verbatim>\<open>toggle_postponed\<close>\<close>

text \<open>
  A view returns its response, or the exception that left it, together with the
  database as the view left it (a row saved before an exception stays saved).
  \<^verbatim>\<open>Debate.objects.get(pk=debate_id)\<close> raises \<^verbatim>\<open>DoesNotExist\<close> for an unknown key.
  The view then flips the status and saves the row; it answers with a redirect to the
  results page of the debate's round.
\<close>

datatype toggle_response = RedirectResults nat

definition toggle_postponed :: "db \<Rightarrow> nat \<Rightarrow> (exn + toggle_response) \<times> db" where
  "toggle_postponed s pk =
     (case lookup (debates s) pk of
        None \<Rightarrow> (Inl DoesNotExist, s)
      | Some debate \<Rightarrow>
          let debate' =
                (if result_status debate = STATUS_POSTPONED
                 then debate\<lparr>result_status := STATUS_NONE\<rparr>
                 else debate\<lparr>result_status := STATUS_POSTPONED\<rparr>)
          in (Inr (RedirectResults (round_id debate')),
              s\<lparr>debates := (debates s)[pk := debate']\<rparr>))"

text \<open>A debate has a confirmed submission when one of its rows is confirmed and not discarded.\<close>

definition has_confirmed_submission :: "db \<Rightarrow> nat \<Rightarrow> bool" where
  "has_confirmed_submission s pk =
     list_ex (\<lambda>b. debate_id b = pk \<and> confirmed b \<and> \<not> discarded b) (ballotsubs s)"

section \<open>Ballot check-in\<close>

text \<open>
  \<^verbatim>\<open>name__iexact\<close> compares without regard to case; the model folds the ASCII
  letters \<open>A\<close> to \<open>Z\<close> to lower case and leaves every other character alone.
\<close>

definition lower_char :: "char \<Rightarrow> char" where
  "lower_char c =
     (let n = (of_char c :: nat) in if 65 \<le> n \<and> n \<le> 90 then char_of (n + 32) else c)"

definition iexact :: "string \<Rightarrow> string \<Rightarrow> bool" where
  "iexact a b = (map lower_char a = map lower_char b)"

text \<open>
  \<^verbatim>\<open>QuerySet.get\<close>: the one matching row with its primary key, \<^verbatim>\<open>DoesNotExist\<close>
  when no row matches, \<^verbatim>\<open>MultipleObjectsReturned\<close> when several do.
\<close>

definition objects_get :: "('a \<Rightarrow> bool) \<Rightarrow> 'a list \<Rightarrow> exn + (nat \<times> 'a)" where
  "objects_get P rows =
     (case filter (\<lambda>(pk, row). P row) (enumerate 0 rows) of
        [] \<Rightarrow> Inl DoesNotExist
      | [r] \<Rightarrow> Inr r
      | _ \<Rightarrow> Inl MultipleObjectsReturned)"

text \<open>
  The parameter \<open>v\<close> is \<^verbatim>\<open>request.POST.get('venue')\<close>, a venue name. Only
  \<^verbatim>\<open>DoesNotExist\<close> is caught at either lookup; \<^verbatim>\<open>MultipleObjectsReturned\<close>
  leaves the function as it is.
\<close>

definition get_debate_from_ballot_checkin_request ::
    "db \<Rightarrow> nat \<Rightarrow> string \<Rightarrow> exn + (nat \<times> debate)" where
  "get_debate_from_ballot_checkin_request s rnd v =
     (case objects_get (\<lambda>name. iexact name v) (venues s) of
        Inl DoesNotExist \<Rightarrow> Inl (DebateBallotCheckinError (NoVenueNamed v))
      | Inl e \<Rightarrow> Inl e
      | Inr (venue, name) \<Rightarrow>
          (case objects_get (\<lambda>d. round_id d = rnd \<and> venue_id d = Some venue) (debates s) of
             Inl DoesNotExist \<Rightarrow> Inl (DebateBallotCheckinError (NoDebateInVenue name))
           | Inl e \<Rightarrow> Inl e
           | Inr (pk, debate) \<Rightarrow>
               if ballot_in debate
               then Inl (DebateBallotCheckinError (AlreadyCheckedIn name))
               else Inr (pk, debate)))"

definition ballot_checkin_number_left :: "db \<Rightarrow> nat \<Rightarrow> nat" where
  "ballot_checkin_number_left s rnd =
     length (filter (\<lambda>d. round_id d = rnd \<and> \<not> ballot_in d) (debates s))"

text \<open>\<^verbatim>\<open>debate.venue.name\<close>; reading \<^verbatim>\<open>name\<close> of no venue is an \<^verbatim>\<open>AttributeError\<close>.\<close>

definition venue_name :: "db \<Rightarrow> debate \<Rightarrow> string option" where
  "venue_name s debate = (case venue_id debate of None \<Rightarrow> None | Some v \<Rightarrow> lookup (venues s) v)"

text \<open>\<^verbatim>\<open>ActionLogEntry.objects.log\<close> appends one entry to the action log.\<close>

definition log_action :: "actionlogentry \<Rightarrow> db \<Rightarrow> db" where
  "log_action e s = s\<lparr>actionlog := actionlog s @ [e]\<rparr>"

text \<open>The action log entry of a check-in.\<close>

definition checkin_entry :: "user \<Rightarrow> nat \<Rightarrow> actionlogentry" where
  "checkin_entry usr pk = \<lparr>log_type = ACTION_TYPE_BALLOT_CHECKIN, log_user = Some (user_id usr),
     log_ballot_submission = None, log_debate = Some pk\<rparr>"

text \<open>
  The JSON answers of \<^verbatim>\<open>post_ballot_checkin\<close>: \<open>CheckinFailure m\<close> is
  \<^verbatim>\<open>{'exists': False, 'message': str(e)}\<close> with \<open>message_text m\<close> as the message, and
  \<open>CheckinSuccess venue description left\<close> is the success object.
\<close>

datatype checkin_response =
    CheckinFailure checkin_message
  | CheckinSuccess string string nat

definition post_ballot_checkin ::
    "db \<Rightarrow> user \<Rightarrow> nat \<Rightarrow> string \<Rightarrow> (exn + checkin_response) \<times> db" where
  "post_ballot_checkin s usr rnd v =
     (case get_debate_from_ballot_checkin_request s rnd v of
        Inl (DebateBallotCheckinError m) \<Rightarrow> (Inr (CheckinFailure m), s)
      | Inl e \<Rightarrow> (Inl e, s)
      | Inr (pk, debate) \<Rightarrow>
          let debate' = debate\<lparr>ballot_in := True\<rparr>;
              s1 = s\<lparr>debates := (debates s)[pk := debate']\<rparr>;
              s2 = log_action (checkin_entry usr pk) s1
          in (case venue_name s2 debate' of
                None \<Rightarrow> (Inl AttributeError, s2)
              | Some n \<Rightarrow>
                  (Inr (CheckinSuccess n (aff_team debate' @ '' vs '' @ neg_team debate')
                          (ballot_checkin_number_left s2 rnd)), s2)))"

section \<open>Python floats\<close>

text \<open>
  A Python float is an IEEE 754 binary64 number. A finite float is modelled by the
  rational number it denotes, and an operation by its exact result rounded to the
  nearest float, ties to the even significand (53 bits, smallest exponent -1074, so
  that underflow is gradual). Overflow is left out: the values of \<^verbatim>\<open>ballots_status\<close>
  are minutes between two \<^verbatim>\<open>datetime\<close> values, far inside the range of a float.

  \<open>ilog2 x\<close> is the exponent \<open>k\<close> with \<open>2 ^ k \<le> x < 2 ^ (k + 1)\<close> of a positive \<open>x\<close>,
  found from the bit lengths of numerator and denominator.
\<close>

definition ilog2 :: "rat \<Rightarrow> int" where
  "ilog2 x =
     (let (p, q) = quotient_of x; e = bitlen p - bitlen q
      in if power_int 2 e \<le> x then e else e - 1)"

definition round_even :: "rat \<Rightarrow> int" where
  "round_even x =
     (let f = \<lfloor>x\<rfloor>; r = x - of_int f
      in if r < 1 / 2 then f else if 1 / 2 < r then f + 1 else if even f then f else f + 1)"

definition float_exponent :: "rat \<Rightarrow> int" where
  "float_exponent x = max (ilog2 \<bar>x\<bar> - 52) (- 1074)"

definition round64 :: "rat \<Rightarrow> rat" where
  "round64 x =
     (if x = 0 then 0
      else sgn x * of_int (round_even (\<bar>x\<bar> / power_int 2 (float_exponent x))) *
             power_int 2 (float_exponent x))"

text \<open>The rationals that are floats: an integer multiple of the unit of their exponent.\<close>

definition is_float64 :: "rat \<Rightarrow> bool" where
  "is_float64 y \<longleftrightarrow> (\<exists>n. \<bar>y\<bar> = of_int n * power_int 2 (float_exponent y))"

text \<open>
  The operations the view uses: the conversion of an \<^verbatim>\<open>int\<close> operand, the true
  division of two \<^verbatim>\<open>int\<close>s (correctly rounded), and the four float operations. The
  divisors of the view are the constants 60 and \<^verbatim>\<open>intervals\<close>.
\<close>

definition float_of_int :: "int \<Rightarrow> rat" where
  "float_of_int n = round64 (of_int n)"

definition int_truediv :: "int \<Rightarrow> int \<Rightarrow> rat" where
  "int_truediv a b = round64 (of_int a / of_int b)"

definition fadd :: "rat \<Rightarrow> rat \<Rightarrow> rat" where
  "fadd a b = round64 (a + b)"

definition fsub :: "rat \<Rightarrow> rat \<Rightarrow> rat" where
  "fsub a b = round64 (a - b)"

definition fmul :: "rat \<Rightarrow> rat \<Rightarrow> rat" where
  "fmul a b = round64 (a * b)"

definition fdiv :: "rat \<Rightarrow> rat \<Rightarrow> rat" where
  "fdiv a b = round64 (a / b)"

section \<open>\<^verbatim>\<open>ballots_status\<close>: the submission timeline\<close>

text \<open>
  Every call of \<^verbatim>\<open>minutes_ago\<close> reads \<^verbatim>\<open>datetime.datetime.now()\<close> afresh. A
  \<open>clock\<close> gives the reading (in microseconds) of the \<open>k\<close>-th call within one
  request, and the loops pass the number of readings taken so far along.

  A \<^verbatim>\<open>timedelta\<close> is normalised to days, seconds (0 to 86399) and microseconds;
  \<^verbatim>\<open>minutes_ago\<close> drops the microseconds. \<^verbatim>\<open>days * 1440\<close> is an \<^verbatim>\<open>int\<close>,
  \<^verbatim>\<open>seconds / 60\<close> is Python 3's true division of two \<^verbatim>\<open>int\<close>s, and their sum is
  a float addition.
\<close>

type_synonym clock = "nat \<Rightarrow> int"

definition minutes_ago :: "int \<Rightarrow> int \<Rightarrow> rat" where
  "minutes_ago now time =
     (let time_difference = now - time;
          days = time_difference div 86400000000;
          seconds = (time_difference mod 86400000000) div 1000000
      in fadd (float_of_int (days * 1440)) (int_truediv seconds 60))"

text \<open>
  The same expression without rounding, for the elapsed minutes in the words of the
  specification.
\<close>

definition exact_minutes_ago :: "int \<Rightarrow> int \<Rightarrow> rat" where
  "exact_minutes_ago now time =
     (let time_difference = now - time;
          days = time_difference div 86400000000;
          seconds = (time_difference mod 86400000000) div 1000000
      in of_int days * 1440 + of_int seconds / 60)"

text \<open>Python's \<^verbatim>\<open>int\<close> of a float truncates towards zero.\<close>

definition py_int :: "rat \<Rightarrow> int" where
  "py_int x = (if 0 \<le> x then \<lfloor>x\<rfloor> else \<lceil>x\<rceil>)"

text \<open>
  One sample \<^verbatim>\<open>stat\<close> is the list \<^verbatim>\<open>[int(time_period), debates, 0, 0]\<close>, updated
  in place: minutes ago, debates not yet entered, drafts, confirmed.
\<close>

type_synonym stat = "int \<times> int \<times> int \<times> int"

definition intervals :: nat where
  "intervals = 20"

text \<open>
  The query \<^verbatim>\<open>BallotSubmission.objects.filter(debate__round=...).order_by('timestamp')\<close>:
  the submissions joined with their debates, those of the round, oldest first. Discarded
  submissions are not excluded.
\<close>

definition round_ballots :: "db \<Rightarrow> nat \<Rightarrow> (ballotsub \<times> debate) list" where
  "round_ballots s rnd =
     sort_key (\<lambda>(b, d). timestamp b)
       (filter (\<lambda>(b, d). round_id d = rnd)
          (List.map_filter (\<lambda>b. map_option (Pair b) (lookup (debates s) (debate_id b)))
             (ballotsubs s)))"

text \<open>The inner loop \<^verbatim>\<open>for b in ballots\<close>, from reading \<open>k\<close> of the clock on.\<close>

fun count_ballots ::
    "clock \<Rightarrow> nat \<Rightarrow> rat \<Rightarrow> (ballotsub \<times> debate) list \<Rightarrow> stat \<Rightarrow> stat \<times> nat" where
  "count_ballots clk k time_period [] stat = (stat, k)"
| "count_ballots clk k time_period ((b, d) # bs) (m, n, dr, c) =
     count_ballots clk (Suc k) time_period bs
       (if minutes_ago (clk k) (timestamp b) \<ge> time_period then
          (if result_status d = STATUS_DRAFT then (m, n - 1, dr + 1, c)
           else if result_status d = STATUS_CONFIRMED then (m, n - 1, dr, c + 1)
           else (m, n, dr, c))
        else (m, n, dr, c))"

text \<open>
  The threshold \<^verbatim>\<open>time_period = (i * chunks) + start_entry\<close> of sample \<open>i\<close>: the
  \<^verbatim>\<open>int\<close> \<open>i\<close> is converted, then a float multiplication and a float addition.
\<close>

definition time_period :: "rat \<Rightarrow> rat \<Rightarrow> nat \<Rightarrow> rat" where
  "time_period chunks start_entry i = fadd (fmul (float_of_int (int i)) chunks) start_entry"

text \<open>The outer loop \<^verbatim>\<open>for i in range(intervals + 1)\<close>, over the list of its indices.\<close>

fun stats_loop ::
    "clock \<Rightarrow> nat \<Rightarrow> rat \<Rightarrow> rat \<Rightarrow> int \<Rightarrow> (ballotsub \<times> debate) list \<Rightarrow> nat list \<Rightarrow> stat list"
  where
  "stats_loop clk k chunks start_entry debates_n ballots [] = []"
| "stats_loop clk k chunks start_entry debates_n ballots (i # is) =
     (let (stat, k') =
             count_ballots clk k (time_period chunks start_entry i) ballots
               (py_int (time_period chunks start_entry i), debates_n, 0, 0)
      in stat # stats_loop clk k' chunks start_entry debates_n ballots is)"

text \<open>The boundary readings and the width of a chunk, as the view computes them.\<close>

definition start_entry :: "clock \<Rightarrow> (ballotsub \<times> debate) list \<Rightarrow> rat" where
  "start_entry clk ballots = minutes_ago (clk 0) (timestamp (fst (hd ballots)))"

definition end_entry :: "clock \<Rightarrow> (ballotsub \<times> debate) list \<Rightarrow> rat" where
  "end_entry clk ballots = minutes_ago (clk 1) (timestamp (fst (last ballots)))"

definition chunks :: "clock \<Rightarrow> (ballotsub \<times> debate) list \<Rightarrow> rat" where
  "chunks clk ballots =
     fdiv (fsub (end_entry clk ballots) (start_entry clk ballots)) (float_of_int (int intervals))"

text \<open>
  The threshold of sample \<open>i\<close> in the words of the specification: earliest plus
  \<open>i\<close> times the span over the number of intervals, on the exact elapsed minutes of
  the first and the last submission.
\<close>

definition spec_threshold :: "clock \<Rightarrow> (ballotsub \<times> debate) list \<Rightarrow> nat \<Rightarrow> rat" where
  "spec_threshold clk ballots i =
     (let earliest = exact_minutes_ago (clk 0) (timestamp (fst (hd ballots)));
          latest = exact_minutes_ago (clk 1) (timestamp (fst (last ballots)))
      in earliest + of_nat i * (latest - earliest) / of_nat intervals)"

definition debates_count :: "db \<Rightarrow> nat \<Rightarrow> int" where
  "debates_count s rnd = int (length (filter (\<lambda>d. round_id d = rnd) (debates s)))"

text \<open>The view; its value is the list that \<^verbatim>\<open>json.dumps\<close> renders.\<close>

definition ballots_status :: "db \<Rightarrow> tournament \<Rightarrow> clock \<Rightarrow> stat list" where
  "ballots_status s t clk =
     (let ballots = round_ballots s (round_pk (current_round t));
          debates_n = debates_count s (round_pk (current_round t))
      in if length ballots = 0 then []
         else stats_loop clk 2 (chunks clk ballots) (start_entry clk ballots) debates_n ballots
                [0..<intervals + 1])"

section \<open>Saving a submission\<close>

text \<open>
  What a posted \<^verbatim>\<open>BallotSetForm\<close> holds: the outcome of \<^verbatim>\<open>form.is_valid()\<close>, the
  two check boxes and the scoring content.
\<close>

datatype http_method = GET | POST

record ballot_form =
  form_valid :: bool
  form_confirmed :: bool
  form_discarded :: bool
  form_content :: nat

record request =
  request_method :: http_method
  req_user :: user
  req_ip_address :: string
  post :: ballot_form

text \<open>
  Modelled from the spec: the derived result status of a debate, which
  \<^verbatim>\<open>BallotSubmission.save\<close> (in \<^verbatim>\<open>results/models.py\<close>, not among the sources) keeps
  on the debate. Section 4.1: confirmed when a non-discarded submission is confirmed,
  else awaiting confirmation when a non-discarded submission remains, else no result.
\<close>

definition derive_status :: "ballotsub list \<Rightarrow> nat \<Rightarrow> result_status" where
  "derive_status rows d =
     (let live = filter (\<lambda>b. debate_id b = d \<and> \<not> discarded b) rows
      in if list_ex confirmed live then STATUS_CONFIRMED
         else if live \<noteq> [] then STATUS_DRAFT
         else STATUS_NONE)"

text \<open>
  Modelled from the spec: the write of the derived status to the debate row, part of
  \<^verbatim>\<open>BallotSubmission.save\<close> (in \<^verbatim>\<open>results/models.py\<close>, not among the sources).
  Section 3: the status is stored on the debate.
\<close>

definition set_result_status :: "nat \<Rightarrow> result_status \<Rightarrow> db \<Rightarrow> db" where
  "set_result_status d st s =
     (case lookup (debates s) d of
        None \<Rightarrow> s
      | Some debate \<Rightarrow> s\<lparr>debates := (debates s)[d := debate\<lparr>result_status := st\<rparr>]\<rparr>)"

text \<open>
  Modelled from the spec: the single-winner lock of \<^verbatim>\<open>BallotSubmission.save\<close> (in
  \<^verbatim>\<open>results/models.py\<close>, not among the sources). Section 4.1: any other submission
  of the same debate that is confirmed is unconfirmed, its confirmer and confirmation
  time cleared.
\<close>

definition unconfirm :: "ballotsub \<Rightarrow> ballotsub" where
  "unconfirm b = b\<lparr>confirmed := False, confirmer := None, confirm_timestamp := None\<rparr>"

definition unconfirm_others :: "nat \<Rightarrow> nat \<Rightarrow> ballotsub list \<Rightarrow> ballotsub list" where
  "unconfirm_others d pk rows =
     map (\<lambda>(i, b). if i \<noteq> pk \<and> debate_id b = d \<and> confirmed b then unconfirm b else b)
       (enumerate 0 rows)"

text \<open>
  Modelled from the spec: \<^verbatim>\<open>BallotSubmission.save\<close> for a row that exists (in
  \<^verbatim>\<open>results/models.py\<close>, not among the sources). It writes the row, after unconfirming
  the other submissions of the debate when the row is confirmed, and recomputes the
  debate's status (sections 3 and 4.1).
\<close>

definition ballotsub_save :: "db \<Rightarrow> nat \<Rightarrow> ballotsub \<Rightarrow> db" where
  "ballotsub_save s pk b =
     (let rows = (if confirmed b then unconfirm_others (debate_id b) pk (ballotsubs s)
                  else ballotsubs s);
          rows' = rows[pk := b]
      in set_result_status (debate_id b) (derive_status rows' (debate_id b))
           (s\<lparr>ballotsubs := rows'\<rparr>))"

text \<open>
  Modelled from the spec: \<^verbatim>\<open>BallotSetForm.save\<close> on a submission that exists (in
  \<^verbatim>\<open>results/forms.py\<close>, not among the sources). A discarded submission is a tombstone
  and stays as it is (discarding again is a no-op, confirming it is not allowed).
  Otherwise the form's fields are written to the submission; a discarded submission is
  not confirmed, and one that is not confirmed has no confirmer (section 3). The result
  is the submission as saved and the database.
\<close>

definition form_save :: "db \<Rightarrow> nat \<Rightarrow> ballotsub \<Rightarrow> ballot_form \<Rightarrow> ballotsub \<times> db" where
  "form_save s pk b form =
     (if discarded b then (b, s)
      else
        let b1 = b\<lparr>discarded := form_discarded form,
                   confirmed := form_confirmed form \<and> \<not> form_discarded form,
                   content := form_content form\<rparr>;
            b2 = (if confirmed b1 then b1
                  else b1\<lparr>confirmer := None, confirm_timestamp := None\<rparr>)
        in (b2, ballotsub_save s pk b2))"

text \<open>
  Modelled from the spec: the next version of a debate, allocated by
  \<^verbatim>\<open>BallotSubmission.save\<close> (in \<^verbatim>\<open>results/models.py\<close>, not among the sources).
  Section 3: versions start at 1 and increase per debate, discarded submissions included.
\<close>

definition next_version :: "ballotsub list \<Rightarrow> nat \<Rightarrow> nat" where
  "next_version rows d =
     Suc (foldr max (map version (filter (\<lambda>b. debate_id b = d) rows)) 0)"

text \<open>
  Modelled from the spec: \<^verbatim>\<open>BallotSetForm.save\<close> on a new submission (in
  \<^verbatim>\<open>results/forms.py\<close>, not among the sources). Section 4.1: the submission gets the
  next version and starts neither confirmed nor discarded; the debate's status becomes
  awaiting confirmation if it was no result. The result is the new primary key and the
  database.
\<close>

definition form_save_new :: "db \<Rightarrow> int \<Rightarrow> ballotsub \<Rightarrow> ballot_form \<Rightarrow> nat \<times> db" where
  "form_save_new s now b form =
     (let b' = b\<lparr>version := next_version (ballotsubs s) (debate_id b),
                  confirmed := False, discarded := False, timestamp := now,
                  confirmer := None, confirm_timestamp := None,
                  content := form_content form\<rparr>;
          s1 = s\<lparr>ballotsubs := ballotsubs s @ [b']\<rparr>;
          s2 = (case lookup (debates s1) (debate_id b) of
                  None \<Rightarrow> s1
                | Some debate \<Rightarrow>
                    if result_status debate = STATUS_NONE
                    then set_result_status (debate_id b) STATUS_DRAFT s1
                    else s1)
      in (length (ballotsubs s), s2))"

section \<open>The views that enter and edit submissions\<close>

text \<open>
  The responses: a redirect to the results page of a round after a flash message, or a
  rendered template with the part of its context that depends on the database.
\<close>

datatype public_error = NotReleasedMessage | NoDebateMessage

record new_context =
  new_template :: string
  new_all_ballotsubs :: "nat list"
  new_not_singleton :: bool

record edit_context =
  edit_template :: string
  edit_all_ballotsubs :: "nat list"
  disable_confirm :: bool
  edit_not_singleton :: bool

datatype response =
    Redirect nat flash
  | RenderNew new_context
  | RenderEdit edit_context
  | RenderPublicError public_error
  | RenderPublicSuccess
  | RenderPublicEnter nat

text \<open>
  \<^verbatim>\<open>debate.ballotsubmission_set.order_by('version')\<close>, without the discarded
  submissions unless the user is a superuser: the primary keys in that order.
\<close>

definition all_ballotsubs :: "db \<Rightarrow> user \<Rightarrow> nat \<Rightarrow> nat list" where
  "all_ballotsubs s usr d =
     map fst (sort_key (\<lambda>(pk, b). version b)
       (filter (\<lambda>(pk, b). debate_id b = d \<and> (is_superuser usr \<or> \<not> discarded b))
          (enumerate 0 (ballotsubs s))))"

definition template_for :: "user \<Rightarrow> string" where
  "template_for usr =
     (if is_superuser usr then ''enter_results.html'' else ''assistant_enter_results.html'')"

definition new_ballotset :: "db \<Rightarrow> int \<Rightarrow> request \<Rightarrow> nat \<Rightarrow> (exn + response) \<times> db" where
  "new_ballotset s now request pk =
     (case lookup (debates s) pk of
        None \<Rightarrow> (Inl Http404, s)
      | Some debate \<Rightarrow>
          let ballotsub = \<lparr>debate_id = pk, version = 0,
                 submitter = Some (user_id (req_user request)),
                 submitter_type = SUBMITTER_TABROOM, ip_address = req_ip_address request,
                 confirmed = False, discarded = False, timestamp = now,
                 confirmer = None, confirm_timestamp = None, content = 0\<rparr>
          in if \<not> has_chair debate then (Inr (Redirect (round_id debate) NoChairMessage), s)
             else if request_method request = POST \<and> form_valid (post request) then
               let (new_pk, s1) = form_save_new s now ballotsub (post request);
                   s2 = log_action \<lparr>log_type = ACTION_TYPE_BALLOT_CREATE,
                          log_user = Some (user_id (req_user request)),
                          log_ballot_submission = Some new_pk, log_debate = None\<rparr> s1
               in (Inr (Redirect (round_id debate) AddedMessage), s2)
             else
               let subs = all_ballotsubs s (req_user request) pk
               in (Inr (RenderNew \<lparr>new_template = template_for (req_user request),
                          new_all_ballotsubs = subs, new_not_singleton = (subs \<noteq> [])\<rparr>), s))"

text \<open>
  \<^verbatim>\<open>public_new_ballotset\<close>, reached from \<^verbatim>\<open>public_new_ballotset_key\<close> and
  \<^verbatim>\<open>public_new_ballotset_id\<close> once the adjudicator is resolved. The view has no
  check of the debate's chair.
\<close>

definition public_new_ballotset ::
    "db \<Rightarrow> int \<Rightarrow> tournament \<Rightarrow> request \<Rightarrow> nat \<Rightarrow> (exn + response) \<times> db" where
  "public_new_ballotset s now t request adjudicator =
     (let rnd = current_round t
      in if draw_status rnd \<noteq> STATUS_RELEASED \<or> \<not> motions_released rnd
         then (Inr (RenderPublicError NotReleasedMessage), s)
         else
           (case objects_get
                   (\<lambda>da. da_adjudicator da = adjudicator \<and>
                      (case lookup (debates s) (da_debate da) of
                         None \<Rightarrow> False
                       | Some d \<Rightarrow> round_id d = round_pk rnd))
                   (debateadjudicators s) of
              Inl DoesNotExist \<Rightarrow> (Inr (RenderPublicError NoDebateMessage), s)
            | Inl e \<Rightarrow> (Inl e, s)
            | Inr (da_pk, da) \<Rightarrow>
                let ballotsub = \<lparr>debate_id = da_debate da, version = 0, submitter = None,
                       submitter_type = SUBMITTER_PUBLIC, ip_address = req_ip_address request,
                       confirmed = False, discarded = False, timestamp = now,
                       confirmer = None, confirm_timestamp = None, content = 0\<rparr>
                in if request_method request = POST \<and> form_valid (post request) then
                     let (new_pk, s1) = form_save_new s now ballotsub (post request);
                         s2 = log_action \<lparr>log_type = ACTION_TYPE_BALLOT_SUBMIT,
                                log_user = None, log_ballot_submission = Some new_pk,
                                log_debate = None\<rparr> s1
                     in (Inr RenderPublicSuccess, s2)
                   else
                     (Inr (RenderPublicEnter
                        (length (filter (\<lambda>b. debate_id b = da_debate da \<and> \<not> discarded b)
                           (ballotsubs s)))), s)))"

text \<open>
  \<^verbatim>\<open>edit_ballotset\<close>. After \<^verbatim>\<open>form.save()\<close> the view reads the flags of the
  submission to tell a discard, a confirmation and an edit apart; on a confirmation it
  sets the confirmer to the requesting user and saves again. It compares the user with
  the submitter only for the \<^verbatim>\<open>disable_confirm\<close> entry of the rendered context.
  The annotation of the listed submissions with their identical versions is display
  only and is left out, as are the form and the model objects of the context.
\<close>

definition edit_ballotset ::
    "db \<Rightarrow> int \<Rightarrow> tournament \<Rightarrow> request \<Rightarrow> nat \<Rightarrow> (exn + response) \<times> db" where
  "edit_ballotset s now t request ballotsub_id =
     (case lookup (ballotsubs s) ballotsub_id of
        None \<Rightarrow> (Inl Http404, s)
      | Some ballotsub \<Rightarrow>
          (case lookup (debates s) (debate_id ballotsub) of
             None \<Rightarrow> (Inl DoesNotExist, s)
           | Some debate \<Rightarrow>
               if request_method request = POST \<and> form_valid (post request) then
                 let (ballotsub1, s1) = form_save s ballotsub_id ballotsub (post request);
                     entry = (\<lambda>ty. \<lparr>log_type = ty,
                                log_user = Some (user_id (req_user request)),
                                log_ballot_submission = Some ballotsub_id, log_debate = None\<rparr>)
                 in if discarded ballotsub1 then
                      (Inr (Redirect (round_id debate) DiscardedMessage),
                       log_action (entry ACTION_TYPE_BALLOT_DISCARD) s1)
                    else if confirmed ballotsub1 then
                      let ballotsub2 = ballotsub1\<lparr>confirmer := Some (user_id (req_user request)),
                                          confirm_timestamp := Some now\<rparr>;
                          s2 = ballotsub_save s1 ballotsub_id ballotsub2
                      in (Inr (Redirect (round_id debate) ConfirmedMessage),
                          log_action (entry ACTION_TYPE_BALLOT_CONFIRM) s2)
                    else
                      (Inr (Redirect (round_id debate) EditedMessage),
                       log_action (entry ACTION_TYPE_BALLOT_EDIT) s1)
               else
                 let subs = all_ballotsubs s (req_user request) (debate_id ballotsub)
                 in (Inr (RenderEdit \<lparr>edit_template = template_for (req_user request),
                            edit_all_ballotsubs = subs,
                            disable_confirm =
                              (Some (user_id (req_user request)) = submitter ballotsub \<and>
                               \<not> disable_ballot_confirms t \<and>
                               \<not> is_superuser (req_user request)),
                            edit_not_singleton = (filter (\<lambda>i. i \<noteq> ballotsub_id) subs \<noteq> [])\<rparr>),
                     s)))"

section \<open>Sequences of operations\<close>

text \<open>The views that write to the database, as operations on it.\<close>

datatype operation =
    NewBallotset int request nat
  | PublicNewBallotset int tournament request nat
  | EditBallotset int tournament request nat
  | TogglePostponed nat
  | PostBallotCheckin user nat string

fun apply_operation :: "db \<Rightarrow> operation \<Rightarrow> db" where
  "apply_operation s (NewBallotset now request pk) = snd (new_ballotset s now request pk)"
| "apply_operation s (PublicNewBallotset now t request adjudicator) =
     snd (public_new_ballotset s now t request adjudicator)"
| "apply_operation s (EditBallotset now t request ballotsub_id) =
     snd (edit_ballotset s now t request ballotsub_id)"
| "apply_operation s (TogglePostponed pk) = snd (toggle_postponed s pk)"
| "apply_operation s (PostBallotCheckin usr rnd v) = snd (post_ballot_checkin s usr rnd v)"

definition run :: "db \<Rightarrow> operation list \<Rightarrow> db" where
  "run s ops = foldl apply_operation s ops"

text \<open>The number of non-discarded, confirmed submissions of a debate.\<close>

definition confirmed_count :: "db \<Rightarrow> nat \<Rightarrow> nat" where
  "confirmed_count s d =
     length (filter (\<lambda>b. debate_id b = d \<and> confirmed b \<and> \<not> discarded b) (ballotsubs s))"

text \<open>The invariant: no debate has more than one non-discarded, confirmed submission.\<close>

definition live_confirmed :: "nat \<Rightarrow> ballotsub \<Rightarrow> bool" where
  "live_confirmed d b \<longleftrightarrow> debate_id b = d \<and> confirmed b \<and> \<not> discarded b"

definition at_most_one_confirmed :: "db \<Rightarrow> bool" where
  "at_most_one_confirmed s \<longleftrightarrow> (\<forall>d. confirmed_count s d \<le> 1)"

section \<open>Example databases\<close>

definition room1_debate :: debate where
  "room1_debate = \<lparr>round_id = 1, venue_id = Some 0, aff_team = ''Aff'', neg_team = ''Neg'',
     result_status = STATUS_NONE, ballot_in = False, has_chair = True\<rparr>"

definition draft_sub :: ballotsub where
  "draft_sub = \<lparr>debate_id = 0, version = 1, submitter = Some 7,
     submitter_type = SUBMITTER_TABROOM, ip_address = ''10.0.0.1'', confirmed = False,
     discarded = False, timestamp = 4200000000, confirmer = None, confirm_timestamp = None,
     content = 3\<rparr>"

definition confirmed_db :: db where
  "confirmed_db = \<lparr>debates = [room1_debate\<lparr>result_status := STATUS_CONFIRMED\<rparr>],
     venues = [''Room 1''],
     ballotsubs = [draft_sub\<lparr>confirmed := True, confirmer := Some 8,
                              confirm_timestamp := Some 4300000000\<rparr>],
     debateadjudicators = [], actionlog = []\<rparr>"

definition draft_db :: db where
  "draft_db = \<lparr>debates = [room1_debate\<lparr>result_status := STATUS_DRAFT\<rparr>],
     venues = [''Room 1''], ballotsubs = [draft_sub],
     debateadjudicators = [], actionlog = []\<rparr>"

definition checkin_db :: db where
  "checkin_db = \<lparr>debates = [room1_debate,
        room1_debate\<lparr>venue_id := Some 1, ballot_in := True\<rparr>,
        room1_debate\<lparr>round_id := 2, venue_id := Some 2\<rparr>],
     venues = [''Room 1'', ''Room 2'', ''Room 3''],
     ballotsubs = [], debateadjudicators = [], actionlog = []\<rparr>"

definition tab_user :: user where
  "tab_user = \<lparr>user_id = 7, is_superuser = False\<rparr>"

definition checked_in_db :: db where
  "checked_in_db = checkin_db\<lparr>debates := [room1_debate\<lparr>ballot_in := True\<rparr>,
        room1_debate\<lparr>venue_id := Some 1, ballot_in := True\<rparr>,
        room1_debate\<lparr>round_id := 2, venue_id := Some 2\<rparr>],
     actionlog := [checkin_entry tab_user 0]\<rparr>"

definition two_rooms_db :: db where
  "two_rooms_db = checkin_db\<lparr>venues := [''Room 1'', ''ROOM 1'']\<rparr>"

definition round1_tournament :: tournament where
  "round1_tournament = \<lparr>current_round = \<lparr>round_pk = 1, draw_status = STATUS_RELEASED,
       motions_released = True\<rparr>, disable_ballot_confirms = False\<rparr>"

definition confirmed_sub :: "nat \<Rightarrow> int \<Rightarrow> ballotsub" where
  "confirmed_sub d ts = draft_sub\<lparr>debate_id := d, timestamp := ts, confirmed := True,
     confirmer := Some 8, confirm_timestamp := Some ts\<rparr>"

definition histogram_db :: db where
  "histogram_db = \<lparr>debates = replicate 3 (room1_debate\<lparr>result_status := STATUS_CONFIRMED\<rparr>) @
        replicate 7 room1_debate,
     venues = [''Room 1''],
     ballotsubs = [confirmed_sub 0 4200000000, confirmed_sub 1 4800000000,
                   confirmed_sub 2 5400000000],
     debateadjudicators = [], actionlog = []\<rparr>"

definition fixed_clock :: clock where
  "fixed_clock = (\<lambda>k. 6000000000)"


definition no_chair_db :: db where
  "no_chair_db = \<lparr>debates = [room1_debate\<lparr>has_chair := False\<rparr>],
     venues = [''Room 1''], ballotsubs = [],
     debateadjudicators = [\<lparr>da_adjudicator = 5, da_debate = 0\<rparr>], actionlog = []\<rparr>"

definition entry_post :: request where
  "entry_post = \<lparr>request_method = POST, req_user = tab_user, req_ip_address = ''10.0.0.1'',
     post = \<lparr>form_valid = True, form_confirmed = False, form_discarded = False,
              form_content = 3\<rparr>\<rparr>"

definition confirm_post :: request where
  "confirm_post = entry_post\<lparr>post := \<lparr>form_valid = True, form_confirmed = True,
     form_discarded = False, form_content = 3\<rparr>\<rparr>"

definition public_sub :: ballotsub where
  "public_sub = \<lparr>debate_id = 0, version = 1, submitter = None,
     submitter_type = SUBMITTER_PUBLIC, ip_address = ''10.0.0.1'', confirmed = False,
     discarded = False, timestamp = 6000000000, confirmer = None, confirm_timestamp = None,
     content = 3\<rparr>"

definition self_confirmed_db :: db where
  "self_confirmed_db = \<lparr>debates = [room1_debate\<lparr>result_status := STATUS_CONFIRMED\<rparr>],
     venues = [''Room 1''],
     ballotsubs = [draft_sub\<lparr>confirmed := True, confirmer := Some 7,
                              confirm_timestamp := Some 6000000000\<rparr>],
     debateadjudicators = [],
     actionlog = [\<lparr>log_type = ACTION_TYPE_BALLOT_CONFIRM, log_user = Some 7,
                    log_ballot_submission = Some 0, log_debate = None\<rparr>]\<rparr>"

definition confirm_twice :: "operation list" where
  "confirm_twice =
     [NewBallotset 4200000000 entry_post 0,
      PublicNewBallotset 4800000000 round1_tournament entry_post 5,
      EditBallotset 5400000000 round1_tournament confirm_post 0,
      EditBallotset 6000000000 round1_tournament confirm_post 1]"

definition chaired_db :: db where
  "chaired_db = no_chair_db\<lparr>debates := [room1_debate]\<rparr>"

definition rounding_db :: db where
  "rounding_db = \<lparr>debates = [room1_debate\<lparr>result_status := STATUS_DRAFT\<rparr>],
     venues = [''Room 1''],
     ballotsubs = [draft_sub\<lparr>timestamp := 5927000000\<rparr>,
                   draft_sub\<lparr>version := 2, timestamp := 5979000000\<rparr>],
     debateadjudicators = [], actionlog = []\<rparr>"

section \<open>Theorems: \<^verbatim>\<open>toggle_postponed\<close>\<close>

lemma lookup_Some: "lookup rows pk = Some r \<longleftrightarrow> pk < length rows \<and> rows ! pk = r"
  by (auto simp: lookup_def)

text \<open>
  A debate with a confirmed submission and status confirmed: \<^verbatim>\<open>toggle_postponed\<close>
  does not fail, and the status becomes postponed.
\<close>

theorem toggle_postponed_confirmed_counterexample:
  "has_confirmed_submission confirmed_db 0 \<and>
   toggle_postponed confirmed_db 0 =
     (Inr (RedirectResults 1),
      confirmed_db\<lparr>debates := [room1_debate\<lparr>result_status := STATUS_POSTPONED\<rparr>]\<rparr>) \<and>
   map result_status (debates confirmed_db) = [STATUS_CONFIRMED] \<and>
   map result_status (debates (snd (toggle_postponed confirmed_db 0))) = [STATUS_POSTPONED]"
  by (simp add: has_confirmed_submission_def toggle_postponed_def lookup_def confirmed_db_def
        room1_debate_def draft_sub_def)

lemma toggle_postponed_Some:
  assumes "lookup (debates s) pk = Some d"
  shows "toggle_postponed s pk =
           (Inr (RedirectResults (round_id d)),
            s\<lparr>debates := (debates s)
                 [pk := d\<lparr>result_status :=
                     (if result_status d = STATUS_POSTPONED then STATUS_NONE
                      else STATUS_POSTPONED)\<rparr>]\<rparr>)"
  using assms by (simp add: toggle_postponed_def)

text \<open>
  Claim C2, as the code has it: \<^verbatim>\<open>toggle_postponed\<close> has no guard. For a debate
  that has a confirmed submission it succeeds like for any other debate: it redirects to
  the results of the debate's round, the status becomes no-result if it was postponed and
  postponed otherwise, and nothing else in the database changes.
\<close>

theorem toggle_postponed_unconditional:
  assumes "has_confirmed_submission s pk" and "lookup (debates s) pk = Some d"
  shows "toggle_postponed s pk =
           (Inr (RedirectResults (round_id d)),
            s\<lparr>debates := (debates s)
                 [pk := d\<lparr>result_status :=
                     (if result_status d = STATUS_POSTPONED then STATUS_NONE
                      else STATUS_POSTPONED)\<rparr>]\<rparr>)"
  using assms(2) by (rule toggle_postponed_Some)

theorem toggle_postponed_unconditional_witness:
  "has_confirmed_submission confirmed_db 0 \<and>
   lookup (debates confirmed_db) 0 = Some (room1_debate\<lparr>result_status := STATUS_CONFIRMED\<rparr>) \<and>
   toggle_postponed confirmed_db 0 =
     (Inr (RedirectResults 1),
      confirmed_db\<lparr>debates := [room1_debate\<lparr>result_status := STATUS_POSTPONED\<rparr>]\<rparr>)"
proof -
  have h1: "has_confirmed_submission confirmed_db 0"
    by (simp add: has_confirmed_submission_def confirmed_db_def draft_sub_def)
  have h2: "lookup (debates confirmed_db) 0 = Some (room1_debate\<lparr>result_status := STATUS_CONFIRMED\<rparr>)"
    by (simp add: lookup_def confirmed_db_def)
  show ?thesis
    using h1 h2 toggle_postponed_unconditional [OF h1 h2]
    by (simp add: confirmed_db_def room1_debate_def)
qed

text \<open>
  A debate with one unconfirmed submission and status draft: two toggles leave it with
  status no-result, not draft.
\<close>

theorem toggle_postponed_twice_draft_counterexample:
  "\<not> has_confirmed_submission draft_db 0 \<and>
   map result_status (debates draft_db) = [STATUS_DRAFT] \<and>
   map result_status (debates (snd (toggle_postponed draft_db 0))) = [STATUS_POSTPONED] \<and>
   map result_status
     (debates (snd (toggle_postponed (snd (toggle_postponed draft_db 0)) 0))) = [STATUS_NONE]"
  by (simp add: has_confirmed_submission_def toggle_postponed_def lookup_def draft_db_def
        room1_debate_def draft_sub_def)

text \<open>
  Claim C3, as the code has it: for a debate with no confirmed submission whose status
  is no-result or postponed, the first toggle flips the status to the other of the two
  and the second toggle gives back the database as it was.
\<close>

theorem toggle_postponed_twice:
  assumes "\<not> has_confirmed_submission s pk"
    and "lookup (debates s) pk = Some d"
    and "result_status d = STATUS_NONE \<or> result_status d = STATUS_POSTPONED"
  shows "toggle_postponed s pk =
           (Inr (RedirectResults (round_id d)),
            s\<lparr>debates := (debates s)
                 [pk := d\<lparr>result_status :=
                     (if result_status d = STATUS_NONE then STATUS_POSTPONED
                      else STATUS_NONE)\<rparr>]\<rparr>) \<and>
         toggle_postponed (snd (toggle_postponed s pk)) pk =
           (Inr (RedirectResults (round_id d)), s)"
proof -
  from assms(2) have len: "pk < length (debates s)" and d: "debates s ! pk = d"
    by (simp_all add: lookup_Some)
  let ?d1 = "d\<lparr>result_status :=
                (if result_status d = STATUS_NONE then STATUS_POSTPONED else STATUS_NONE)\<rparr>"
  let ?s1 = "s\<lparr>debates := (debates s)[pk := ?d1]\<rparr>"
  have first: "toggle_postponed s pk = (Inr (RedirectResults (round_id d)), ?s1)"
    using toggle_postponed_Some [OF assms(2)] assms(3) by auto
  have look1: "lookup (debates ?s1) pk = Some ?d1"
    using len by (simp add: lookup_def)
  have flip_back: "?d1\<lparr>result_status :=
                (if result_status ?d1 = STATUS_POSTPONED then STATUS_NONE
                 else STATUS_POSTPONED)\<rparr> = d"
    using assms(3) by auto
  have restored: "?s1\<lparr>debates := (debates ?s1)[pk := d]\<rparr> = s"
    using len d by (simp add: list_update_same_conv)
  have "toggle_postponed ?s1 pk = (Inr (RedirectResults (round_id ?d1)), s)"
    using toggle_postponed_Some [OF look1] unfolding flip_back restored .
  then have "toggle_postponed (snd (toggle_postponed s pk)) pk =
               (Inr (RedirectResults (round_id d)), s)"
    unfolding first by simp
  with first show ?thesis by blast
qed

theorem toggle_postponed_twice_witness:
  "\<not> has_confirmed_submission (draft_db\<lparr>debates := [room1_debate]\<rparr>) 0 \<and>
   lookup (debates (draft_db\<lparr>debates := [room1_debate]\<rparr>)) 0 = Some room1_debate \<and>
   result_status room1_debate = STATUS_NONE \<and>
   toggle_postponed (draft_db\<lparr>debates := [room1_debate]\<rparr>) 0 =
     (Inr (RedirectResults 1),
      draft_db\<lparr>debates := [room1_debate\<lparr>result_status := STATUS_POSTPONED\<rparr>]\<rparr>) \<and>
   toggle_postponed (snd (toggle_postponed (draft_db\<lparr>debates := [room1_debate]\<rparr>) 0)) 0 =
     (Inr (RedirectResults 1), draft_db\<lparr>debates := [room1_debate]\<rparr>)"
proof -
  let ?s = "draft_db\<lparr>debates := [room1_debate]\<rparr>"
  have h1: "\<not> has_confirmed_submission ?s 0"
    by (simp add: has_confirmed_submission_def draft_db_def draft_sub_def)
  have h2: "lookup (debates ?s) 0 = Some room1_debate"
    by (simp add: lookup_def)
  have h3: "result_status room1_debate = STATUS_NONE \<or>
            result_status room1_debate = STATUS_POSTPONED"
    by (simp add: room1_debate_def)
  have st: "result_status room1_debate = STATUS_NONE" and rd: "round_id room1_debate = 1"
    by (simp_all add: room1_debate_def)
  note both = toggle_postponed_twice [OF h1 h2 h3]
  have c1: "toggle_postponed ?s 0 =
     (Inr (RedirectResults 1),
      draft_db\<lparr>debates := [room1_debate\<lparr>result_status := STATUS_POSTPONED\<rparr>]\<rparr>)"
    using conjunct1 [OF both] by (simp add: st rd)
  have c2: "toggle_postponed (snd (toggle_postponed ?s 0)) 0 = (Inr (RedirectResults 1), ?s)"
    using conjunct2 [OF both] by (simp add: rd)
  show ?thesis
    using h1 h2 st c1 c2 by blast
qed

section \<open>Theorems: ballot check-in\<close>

lemma filter_enumerate_none:
  "(\<forall>x\<in>set rows. \<not> P x) \<Longrightarrow> filter (\<lambda>(pk, row). P row) (enumerate n rows) = []"
  by (induction rows arbitrary: n) auto

lemma objects_get_none:
  "(\<forall>x\<in>set rows. \<not> P x) \<Longrightarrow> objects_get P rows = Inl DoesNotExist"
  by (simp add: objects_get_def filter_enumerate_none)

lemma filter_enumerate_unique:
  assumes "pk < length rows" and "P (rows ! pk)"
    and "\<forall>j<length rows. P (rows ! j) \<longrightarrow> j = pk"
  shows "filter (\<lambda>(i, row). P row) (enumerate n rows) = [(n + pk, rows ! pk)]"
  using assms
proof (induction rows arbitrary: n pk)
  case Nil
  then show ?case by simp
next
  case (Cons r rows)
  show ?case
  proof (cases pk)
    case 0
    have "\<forall>x\<in>set rows. \<not> P x"
    proof
      fix x assume "x \<in> set rows"
      then obtain j where "j < length rows" "rows ! j = x" by (auto simp: in_set_conv_nth)
      with Cons.prems(3) 0 show "\<not> P x" by (auto dest: spec [of _ "Suc j"])
    qed
    with 0 Cons.prems(2) show ?thesis by (simp add: filter_enumerate_none)
  next
    case (Suc k)
    from Cons.prems(3) Suc have "\<not> P r" by (auto dest: spec [of _ 0])
    moreover have "filter (\<lambda>(i, row). P row) (enumerate (Suc n) rows) = [(Suc n + k, rows ! k)]"
    proof (rule Cons.IH)
      show "k < length rows" using Cons.prems(1) Suc by simp
      show "P (rows ! k)" using Cons.prems(2) Suc by simp
      show "\<forall>j<length rows. P (rows ! j) \<longrightarrow> j = k"
        using Cons.prems(3) Suc by (auto dest: spec [of _ "Suc j" for j])
    qed
    ultimately show ?thesis using Suc by simp
  qed
qed

lemma objects_get_unique:
  assumes "pk < length rows" and "P (rows ! pk)"
    and "\<forall>j<length rows. P (rows ! j) \<longrightarrow> j = pk"
  shows "objects_get P rows = Inr (pk, rows ! pk)"
  using filter_enumerate_unique [OF assms, of 0] by (simp add: objects_get_def)

lemma filter_enumerate_sound:
  "(i, x) \<in> set (filter (\<lambda>(pk, row). P row) (enumerate n rows)) \<Longrightarrow>
     n \<le> i \<and> i - n < length rows \<and> rows ! (i - n) = x \<and> P x"
  by (auto simp: in_set_enumerate_eq)

lemma objects_get_Inr:
  assumes "objects_get P rows = Inr (pk, x)"
  shows "pk < length rows \<and> rows ! pk = x \<and> P x"
proof -
  from assms have "filter (\<lambda>(pk, row). P row) (enumerate 0 rows) = [(pk, x)]"
    by (auto simp: objects_get_def split: list.splits)
  then have "(pk, x) \<in> set (filter (\<lambda>(pk, row). P row) (enumerate 0 rows))" by simp
  from filter_enumerate_sound [OF this] show ?thesis by simp
qed

lemma get_debate_no_venue:
  assumes "\<forall>name\<in>set (venues s). \<not> iexact name v"
  shows "get_debate_from_ballot_checkin_request s rnd v =
           Inl (DebateBallotCheckinError (NoVenueNamed v))"
  using objects_get_none [of "venues s" "\<lambda>name. iexact name v", OF assms]
  by (simp add: get_debate_from_ballot_checkin_request_def)

lemma get_debate_no_debate:
  assumes "venue < length (venues s)" and "iexact (venues s ! venue) v"
    and "\<forall>j<length (venues s). iexact (venues s ! j) v \<longrightarrow> j = venue"
    and "\<forall>d\<in>set (debates s). \<not> (round_id d = rnd \<and> venue_id d = Some venue)"
  shows "get_debate_from_ballot_checkin_request s rnd v =
           Inl (DebateBallotCheckinError (NoDebateInVenue (venues s ! venue)))"
  using objects_get_unique [of venue "venues s" "\<lambda>name. iexact name v", OF assms(1-3)]
    objects_get_none [of "debates s" "\<lambda>d. round_id d = rnd \<and> venue_id d = Some venue",
      OF assms(4)]
  by (simp add: get_debate_from_ballot_checkin_request_def)

lemma get_debate_resolved:
  assumes "venue < length (venues s)" and "iexact (venues s ! venue) v"
    and "\<forall>j<length (venues s). iexact (venues s ! j) v \<longrightarrow> j = venue"
    and "pk < length (debates s)"
    and "round_id (debates s ! pk) = rnd \<and> venue_id (debates s ! pk) = Some venue"
    and "\<forall>j<length (debates s).
           round_id (debates s ! j) = rnd \<and> venue_id (debates s ! j) = Some venue \<longrightarrow> j = pk"
  shows "get_debate_from_ballot_checkin_request s rnd v =
           (if ballot_in (debates s ! pk)
            then Inl (DebateBallotCheckinError (AlreadyCheckedIn (venues s ! venue)))
            else Inr (pk, debates s ! pk))"
  using objects_get_unique [of venue "venues s" "\<lambda>name. iexact name v", OF assms(1-3)]
    objects_get_unique [of pk "debates s" "\<lambda>d. round_id d = rnd \<and> venue_id d = Some venue",
      OF assms(4-6)]
  by (simp add: get_debate_from_ballot_checkin_request_def)

lemma post_ballot_checkin_failure:
  assumes "get_debate_from_ballot_checkin_request s rnd v = Inl (DebateBallotCheckinError m)"
  shows "post_ballot_checkin s usr rnd v = (Inr (CheckinFailure m), s)"
  using assms by (simp add: post_ballot_checkin_def)

lemma post_ballot_checkin_success:
  assumes "get_debate_from_ballot_checkin_request s rnd v = Inr (pk, d)"
    and "venue_id d = Some venue" and "venue < length (venues s)"
  shows "post_ballot_checkin s usr rnd v =
           (let s' = log_action (checkin_entry usr pk)
                       (s\<lparr>debates := (debates s)[pk := d\<lparr>ballot_in := True\<rparr>]\<rparr>)
            in (Inr (CheckinSuccess (venues s ! venue) (aff_team d @ '' vs '' @ neg_team d)
                       (ballot_checkin_number_left s' rnd)), s'))"
  using assms
  by (simp add: post_ballot_checkin_def Let_def venue_name_def lookup_def log_action_def
        checkin_entry_def)

lemma checked_in_db:
  "venues (log_action e (s\<lparr>debates := ds\<rparr>)) = venues s"
  "debates (log_action e (s\<lparr>debates := ds\<rparr>)) = ds"
  "ballotsubs (log_action e (s\<lparr>debates := ds\<rparr>)) = ballotsubs s"
  "debateadjudicators (log_action e (s\<lparr>debates := ds\<rparr>)) = debateadjudicators s"
  "actionlog (log_action e (s\<lparr>debates := ds\<rparr>)) = actionlog s @ [e]"
  by (simp_all add: log_action_def)

lemma get_debate_after_checkin:
  assumes v: "venue < length (venues s)" "iexact (venues s ! venue) v"
    "\<forall>j<length (venues s). iexact (venues s ! j) v \<longrightarrow> j = venue"
    and d: "pk < length (debates s)"
    "round_id (debates s ! pk) = rnd \<and> venue_id (debates s ! pk) = Some venue"
    "\<forall>j<length (debates s).
        round_id (debates s ! j) = rnd \<and> venue_id (debates s ! j) = Some venue \<longrightarrow> j = pk"
    and s': "s' = log_action e (s\<lparr>debates := (debates s)[pk := (debates s ! pk)\<lparr>ballot_in := True\<rparr>]\<rparr>)"
  shows "get_debate_from_ballot_checkin_request s' rnd v =
          Inl (DebateBallotCheckinError (AlreadyCheckedIn (venues s ! venue)))"
proof -
  have venues': "venues s' = venues s"
    and debates': "debates s' = (debates s)[pk := (debates s ! pk)\<lparr>ballot_in := True\<rparr>]"
    unfolding s' by (rule checked_in_db)+
  have 1: "venue < length (venues s')" "iexact (venues s' ! venue) v"
    "\<forall>j<length (venues s'). iexact (venues s' ! j) v \<longrightarrow> j = venue"
    unfolding venues' by (rule v)+
  have 2: "pk < length (debates s')" unfolding debates' using d(1) by simp
  have 3: "round_id (debates s' ! pk) = rnd \<and> venue_id (debates s' ! pk) = Some venue"
    unfolding debates' using d(1,2) by simp
  have 4: "\<forall>j<length (debates s').
        round_id (debates s' ! j) = rnd \<and> venue_id (debates s' ! j) = Some venue \<longrightarrow> j = pk"
  proof (intro allI impI)
    fix j assume j: "j < length (debates s')"
      and m: "round_id (debates s' ! j) = rnd \<and> venue_id (debates s' ! j) = Some venue"
    show "j = pk"
    proof (rule ccontr)
      assume "j \<noteq> pk"
      then have "debates s' ! j = debates s ! j" unfolding debates' by simp
      with m d(3) j show False unfolding debates' using \<open>j \<noteq> pk\<close> by simp
    qed
  qed
  have 5: "ballot_in (debates s' ! pk)" unfolding debates' using d(1) by simp
  show ?thesis
    using get_debate_resolved [OF 1 2 3 4] 5 unfolding venues' by simp
qed

text \<open>
  Claim C4: the venue name is matched without regard to case. With no matching venue
  the check-in fails with the message for an unknown venue. With \<open>venue\<close> the one
  matching venue: with no debate of the round at it, the check-in fails with the message
  for a venue without a debate; with \<open>pk\<close> the one debate of the round at it, the
  check-in fails with the message for a ballot already checked in when \<open>ballot_in\<close>
  is set, and otherwise succeeds, sets \<open>ballot_in\<close>, and a repeated check-in for the
  same venue name fails with the message for a ballot already checked in. A failing
  check-in answers with the failure object and leaves the database as it was.
\<close>

theorem checkin_outcomes:
  "((\<forall>name\<in>set (venues s). \<not> iexact name v) \<longrightarrow>
      get_debate_from_ballot_checkin_request s rnd v =
        Inl (DebateBallotCheckinError (NoVenueNamed v)) \<and>
      post_ballot_checkin s usr rnd v = (Inr (CheckinFailure (NoVenueNamed v)), s)) \<and>
   (venue < length (venues s) \<and> iexact (venues s ! venue) v \<and>
    (\<forall>j<length (venues s). iexact (venues s ! j) v \<longrightarrow> j = venue) \<longrightarrow>
      ((\<forall>d\<in>set (debates s). \<not> (round_id d = rnd \<and> venue_id d = Some venue)) \<longrightarrow>
         get_debate_from_ballot_checkin_request s rnd v =
           Inl (DebateBallotCheckinError (NoDebateInVenue (venues s ! venue))) \<and>
         post_ballot_checkin s usr rnd v =
           (Inr (CheckinFailure (NoDebateInVenue (venues s ! venue))), s)) \<and>
      (pk < length (debates s) \<and>
       round_id (debates s ! pk) = rnd \<and> venue_id (debates s ! pk) = Some venue \<and>
       (\<forall>j<length (debates s).
          round_id (debates s ! j) = rnd \<and> venue_id (debates s ! j) = Some venue \<longrightarrow> j = pk) \<longrightarrow>
         (ballot_in (debates s ! pk) \<longrightarrow>
            get_debate_from_ballot_checkin_request s rnd v =
              Inl (DebateBallotCheckinError (AlreadyCheckedIn (venues s ! venue))) \<and>
            post_ballot_checkin s usr rnd v =
              (Inr (CheckinFailure (AlreadyCheckedIn (venues s ! venue))), s)) \<and>
         (\<not> ballot_in (debates s ! pk) \<longrightarrow>
            (let s' = log_action (checkin_entry usr pk)
                        (s\<lparr>debates := (debates s)[pk := (debates s ! pk)\<lparr>ballot_in := True\<rparr>]\<rparr>)
             in get_debate_from_ballot_checkin_request s rnd v = Inr (pk, debates s ! pk) \<and>
                post_ballot_checkin s usr rnd v =
                  (Inr (CheckinSuccess (venues s ! venue)
                          (aff_team (debates s ! pk) @ '' vs '' @ neg_team (debates s ! pk))
                          (ballot_checkin_number_left s' rnd)), s') \<and>
                ballot_in (debates s' ! pk) \<and>
                post_ballot_checkin s' usr rnd v =
                  (Inr (CheckinFailure (AlreadyCheckedIn (venues s ! venue))), s')))))"
proof -
  let ?d = "debates s ! pk"
  let ?s' = "log_action (checkin_entry usr pk)
               (s\<lparr>debates := (debates s)[pk := ?d\<lparr>ballot_in := True\<rparr>]\<rparr>)"
  let ?venue = "venue < length (venues s) \<and> iexact (venues s ! venue) v \<and>
    (\<forall>j<length (venues s). iexact (venues s ! j) v \<longrightarrow> j = venue)"
  let ?debate = "pk < length (debates s) \<and>
       round_id ?d = rnd \<and> venue_id ?d = Some venue \<and>
       (\<forall>j<length (debates s).
          round_id (debates s ! j) = rnd \<and> venue_id (debates s ! j) = Some venue \<longrightarrow> j = pk)"
  have no_venue: "get_debate_from_ballot_checkin_request s rnd v =
        Inl (DebateBallotCheckinError (NoVenueNamed v)) \<and>
      post_ballot_checkin s usr rnd v = (Inr (CheckinFailure (NoVenueNamed v)), s)"
    if "\<forall>name\<in>set (venues s). \<not> iexact name v"
    by (rule conjI [OF get_debate_no_venue [OF that]
          post_ballot_checkin_failure [OF get_debate_no_venue [OF that]]])
  have no_debate: "get_debate_from_ballot_checkin_request s rnd v =
           Inl (DebateBallotCheckinError (NoDebateInVenue (venues s ! venue))) \<and>
         post_ballot_checkin s usr rnd v =
           (Inr (CheckinFailure (NoDebateInVenue (venues s ! venue))), s)"
    if "?venue" and "\<forall>d\<in>set (debates s). \<not> (round_id d = rnd \<and> venue_id d = Some venue)"
  proof -
    from that have g: "get_debate_from_ballot_checkin_request s rnd v =
           Inl (DebateBallotCheckinError (NoDebateInVenue (venues s ! venue)))"
      by (intro get_debate_no_debate) simp_all
    show ?thesis by (rule conjI [OF g post_ballot_checkin_failure [OF g]])
  qed
  have checked_in: "get_debate_from_ballot_checkin_request s rnd v =
              Inl (DebateBallotCheckinError (AlreadyCheckedIn (venues s ! venue))) \<and>
            post_ballot_checkin s usr rnd v =
              (Inr (CheckinFailure (AlreadyCheckedIn (venues s ! venue))), s)"
    if "?venue" and "?debate" and "ballot_in ?d"
  proof -
    have g: "get_debate_from_ballot_checkin_request s rnd v =
              Inl (DebateBallotCheckinError (AlreadyCheckedIn (venues s ! venue)))"
      using get_debate_resolved [of venue s v pk rnd] that by simp
    show ?thesis by (rule conjI [OF g post_ballot_checkin_failure [OF g]])
  qed
  have success: "get_debate_from_ballot_checkin_request s rnd v = Inr (pk, ?d) \<and>
        post_ballot_checkin s usr rnd v =
          (Inr (CheckinSuccess (venues s ! venue) (aff_team ?d @ '' vs '' @ neg_team ?d)
                  (ballot_checkin_number_left ?s' rnd)), ?s') \<and>
        ballot_in (debates ?s' ! pk) \<and>
        post_ballot_checkin ?s' usr rnd v =
          (Inr (CheckinFailure (AlreadyCheckedIn (venues s ! venue))), ?s')"
    if "?venue" and "?debate" and "\<not> ballot_in ?d"
  proof -
    from that(1) have vlen: "venue < length (venues s)" by (rule conjunct1)
    from that(2) have plen: "pk < length (debates s)" by (rule conjunct1)
    from that(2) have vid: "venue_id ?d = Some venue" by blast
    have g: "get_debate_from_ballot_checkin_request s rnd v = Inr (pk, ?d)"
      using get_debate_resolved [of venue s v pk rnd] that by simp
    have p: "post_ballot_checkin s usr rnd v =
          (Inr (CheckinSuccess (venues s ! venue) (aff_team ?d @ '' vs '' @ neg_team ?d)
                  (ballot_checkin_number_left ?s' rnd)), ?s')"
      using post_ballot_checkin_success [OF g vid vlen, of usr] unfolding Let_def .
    have b: "ballot_in (debates ?s' ! pk)"
      using plen by (simp add: checked_in_db)
    have "get_debate_from_ballot_checkin_request ?s' rnd v =
            Inl (DebateBallotCheckinError (AlreadyCheckedIn (venues s ! venue)))"
      by (rule get_debate_after_checkin [of venue s v pk rnd ?s' "checkin_entry usr pk"])
        (use that(1,2) in simp_all)
    then have a: "post_ballot_checkin ?s' usr rnd v =
          (Inr (CheckinFailure (AlreadyCheckedIn (venues s ! venue))), ?s')"
      by (rule post_ballot_checkin_failure)
    show ?thesis by (intro conjI g p b a)
  qed
  show ?thesis
    unfolding Let_def
    using no_venue no_debate checked_in success by blast
qed

lemma get_debate_Inr:
  assumes "get_debate_from_ballot_checkin_request s rnd v = Inr (pk, d)"
  shows "pk < length (debates s) \<and> debates s ! pk = d \<and> \<not> ballot_in d \<and> round_id d = rnd \<and>
         (\<exists>venue<length (venues s). venue_id d = Some venue \<and> iexact (venues s ! venue) v)"
proof -
  from assms obtain venue name where
    v: "objects_get (\<lambda>name. iexact name v) (venues s) = Inr (venue, name)"
    by (auto simp: get_debate_from_ballot_checkin_request_def
          split: sum.splits exn.splits prod.splits if_splits)
  with assms have
    d: "objects_get (\<lambda>d. round_id d = rnd \<and> venue_id d = Some venue) (debates s) = Inr (pk, d)"
    and b: "\<not> ballot_in d"
    by (auto simp: get_debate_from_ballot_checkin_request_def
          split: sum.splits exn.splits prod.splits if_splits)
  from objects_get_Inr [OF v] objects_get_Inr [OF d] b show ?thesis by auto
qed

text \<open>
  Claim C9: a check-in that answers with a failure, or that an exception leaves, returns
  the database unchanged. A check-in that succeeds has resolved a debate \<open>pk\<close> whose
  \<open>ballot_in\<close> was not set; the database afterwards is the one before with
  \<open>ballot_in\<close> of that debate set and one entry appended to the action log, so every
  other debate, every other field of that debate and every other table are as before.
\<close>

theorem checkin_frame:
  "(fst (post_ballot_checkin s usr rnd v) = Inr (CheckinFailure m) \<longrightarrow>
      snd (post_ballot_checkin s usr rnd v) = s) \<and>
   (fst (post_ballot_checkin s usr rnd v) = Inl e \<longrightarrow>
      snd (post_ballot_checkin s usr rnd v) = s) \<and>
   (fst (post_ballot_checkin s usr rnd v) = Inr (CheckinSuccess n description left) \<longrightarrow>
      (\<exists>pk<length (debates s).
         get_debate_from_ballot_checkin_request s rnd v = Inr (pk, debates s ! pk) \<and>
         \<not> ballot_in (debates s ! pk) \<and>
         snd (post_ballot_checkin s usr rnd v) =
           s\<lparr>debates := (debates s)[pk := (debates s ! pk)\<lparr>ballot_in := True\<rparr>],
              actionlog := actionlog s @ [checkin_entry usr pk]\<rparr>))"
proof (cases "get_debate_from_ballot_checkin_request s rnd v")
  case (Inl x)
  then show ?thesis
    by (cases x) (simp_all add: post_ballot_checkin_def)
next
  case (Inr r)
  obtain pk d where r: "r = (pk, d)" by (cases r)
  from get_debate_Inr [OF Inr [unfolded r]] obtain venue where
    f: "pk < length (debates s)" "debates s ! pk = d" "\<not> ballot_in d"
       "venue < length (venues s)" "venue_id d = Some venue"
    by blast
  have "post_ballot_checkin s usr rnd v =
      (Inr (CheckinSuccess (venues s ! venue) (aff_team d @ '' vs '' @ neg_team d)
         (ballot_checkin_number_left (log_action (checkin_entry usr pk)
             (s\<lparr>debates := (debates s)[pk := d\<lparr>ballot_in := True\<rparr>]\<rparr>)) rnd)),
       log_action (checkin_entry usr pk) (s\<lparr>debates := (debates s)[pk := d\<lparr>ballot_in := True\<rparr>]\<rparr>))"
    using post_ballot_checkin_success [OF Inr [unfolded r] f(5,4), of usr] unfolding Let_def .
  with f Inr r show ?thesis
    by (simp add: log_action_def)
qed

lemma eq_char_of_iff: "c = char_of (n::nat) \<longleftrightarrow> take_bit 8 n = of_char c"
  using char_of_eq_iff [of n c] by auto

lemmas checkin_eval = checkin_db_def room1_debate_def iexact_def lower_char_def char_of_eq_iff
  eq_char_of_iff less_Suc_eq nth_Cons'

text \<open>
  The four outcomes of claim C4 on a database with three venues and three debates, the
  names given in another case than stored.
\<close>

theorem checkin_outcomes_witness:
  "post_ballot_checkin checkin_db tab_user 1 ''Room 9'' =
     (Inr (CheckinFailure (NoVenueNamed ''Room 9'')), checkin_db) \<and>
   post_ballot_checkin checkin_db tab_user 1 ''ROOM 3'' =
     (Inr (CheckinFailure (NoDebateInVenue ''Room 3'')), checkin_db) \<and>
   post_ballot_checkin checkin_db tab_user 1 ''room 2'' =
     (Inr (CheckinFailure (AlreadyCheckedIn ''Room 2'')), checkin_db) \<and>
   post_ballot_checkin checkin_db tab_user 1 ''room 1'' =
     (Inr (CheckinSuccess ''Room 1'' ''Aff vs Neg'' 0), checked_in_db) \<and>
   post_ballot_checkin checked_in_db tab_user 1 ''room 1'' =
     (Inr (CheckinFailure (AlreadyCheckedIn ''Room 1'')), checked_in_db)"
proof -
  have no_venue: "\<forall>name\<in>set (venues checkin_db). \<not> iexact name ''Room 9''"
    by (auto simp: checkin_eval)
  have room3: "2 < length (venues checkin_db) \<and> iexact (venues checkin_db ! 2) ''ROOM 3'' \<and>
      (\<forall>j<length (venues checkin_db). iexact (venues checkin_db ! j) ''ROOM 3'' \<longrightarrow> j = 2)"
    by (auto simp: checkin_eval)
  have room3_empty:
    "\<forall>d\<in>set (debates checkin_db). \<not> (round_id d = 1 \<and> venue_id d = Some 2)"
    by (auto simp: checkin_eval)
  have room2: "1 < length (venues checkin_db) \<and> iexact (venues checkin_db ! 1) ''room 2'' \<and>
      (\<forall>j<length (venues checkin_db). iexact (venues checkin_db ! j) ''room 2'' \<longrightarrow> j = 1)"
    by (auto simp: checkin_eval)
  have debate1: "1 < length (debates checkin_db) \<and>
      round_id (debates checkin_db ! 1) = 1 \<and> venue_id (debates checkin_db ! 1) = Some 1 \<and>
      (\<forall>j<length (debates checkin_db).
          round_id (debates checkin_db ! j) = 1 \<and> venue_id (debates checkin_db ! j) = Some 1
            \<longrightarrow> j = 1)"
    by (auto simp: checkin_eval)
  have debate1_in: "ballot_in (debates checkin_db ! 1)"
    by (simp add: checkin_eval)
  have room1: "0 < length (venues checkin_db) \<and> iexact (venues checkin_db ! 0) ''room 1'' \<and>
      (\<forall>j<length (venues checkin_db). iexact (venues checkin_db ! j) ''room 1'' \<longrightarrow> j = 0)"
    by (auto simp: checkin_eval)
  have debate0: "0 < length (debates checkin_db) \<and>
      round_id (debates checkin_db ! 0) = 1 \<and> venue_id (debates checkin_db ! 0) = Some 0 \<and>
      (\<forall>j<length (debates checkin_db).
          round_id (debates checkin_db ! j) = 1 \<and> venue_id (debates checkin_db ! j) = Some 0
            \<longrightarrow> j = 0)"
    by (auto simp: checkin_eval)
  have debate0_out: "\<not> ballot_in (debates checkin_db ! 0)"
    by (simp add: checkin_eval)
  have after: "log_action (checkin_entry tab_user 0)
        (checkin_db\<lparr>debates := (debates checkin_db)
           [0 := (debates checkin_db ! 0)\<lparr>ballot_in := True\<rparr>]\<rparr>) = checked_in_db"
    by (simp add: checked_in_db_def log_action_def checkin_db_def)
  have left: "ballot_checkin_number_left checked_in_db 1 = 0"
    by (simp add: ballot_checkin_number_left_def checked_in_db_def room1_debate_def)
  have c1: "post_ballot_checkin checkin_db tab_user 1 ''Room 9'' =
     (Inr (CheckinFailure (NoVenueNamed ''Room 9'')), checkin_db)"
    by (rule checkin_outcomes [of checkin_db "''Room 9''" 1 tab_user 0 0,
          THEN conjunct1, THEN mp, OF no_venue, THEN conjunct2])
  have c2: "post_ballot_checkin checkin_db tab_user 1 ''ROOM 3'' =
     (Inr (CheckinFailure (NoDebateInVenue ''Room 3'')), checkin_db)"
    using checkin_outcomes [of checkin_db "''ROOM 3''" 1 tab_user 2 0,
          THEN conjunct2, THEN mp, OF room3, THEN conjunct1, THEN mp, OF room3_empty,
          THEN conjunct2]
    by (simp add: checkin_db_def)
  have c3: "post_ballot_checkin checkin_db tab_user 1 ''room 2'' =
     (Inr (CheckinFailure (AlreadyCheckedIn ''Room 2'')), checkin_db)"
    using checkin_outcomes [of checkin_db "''room 2''" 1 tab_user 1 1,
          THEN conjunct2, THEN mp, OF room2, THEN conjunct2, THEN mp, OF debate1,
          THEN conjunct1, THEN mp, OF debate1_in, THEN conjunct2]
    by (simp add: checkin_db_def)
  note success = checkin_outcomes [of checkin_db "''room 1''" 1 tab_user 0 0,
          THEN conjunct2, THEN mp, OF room1, THEN conjunct2, THEN mp, OF debate0,
          THEN conjunct2, THEN mp, OF debate0_out, unfolded Let_def after]
  have name1: "venues checkin_db ! 0 = ''Room 1''"
    and desc: "aff_team (debates checkin_db ! 0) @ '' vs '' @ neg_team (debates checkin_db ! 0)
                 = ''Aff vs Neg''"
    by (simp_all add: checkin_db_def room1_debate_def)
  have c4: "post_ballot_checkin checkin_db tab_user 1 ''room 1'' =
     (Inr (CheckinSuccess ''Room 1'' ''Aff vs Neg'' 0), checked_in_db)"
    using success [THEN conjunct2, THEN conjunct1] unfolding name1 desc left .
  have c5: "post_ballot_checkin checked_in_db tab_user 1 ''room 1'' =
     (Inr (CheckinFailure (AlreadyCheckedIn ''Room 1'')), checked_in_db)"
    using success [THEN conjunct2, THEN conjunct2, THEN conjunct2] unfolding name1 .
  show ?thesis by (intro conjI c1 c2 c3 c4 c5)
qed

text \<open>
  Claim C9 on the same database: a failure, an exception (two venues match the name)
  and a success.
\<close>

theorem checkin_frame_witness:
  "fst (post_ballot_checkin checkin_db tab_user 1 ''Room 9'') =
     Inr (CheckinFailure (NoVenueNamed ''Room 9'')) \<and>
   snd (post_ballot_checkin checkin_db tab_user 1 ''Room 9'') = checkin_db \<and>
   fst (post_ballot_checkin two_rooms_db tab_user 1 ''room 1'') = Inl MultipleObjectsReturned \<and>
   snd (post_ballot_checkin two_rooms_db tab_user 1 ''room 1'') = two_rooms_db \<and>
   fst (post_ballot_checkin checkin_db tab_user 1 ''room 1'') =
     Inr (CheckinSuccess ''Room 1'' ''Aff vs Neg'' 0) \<and>
   (\<exists>pk<length (debates checkin_db).
      get_debate_from_ballot_checkin_request checkin_db 1 ''room 1'' =
        Inr (pk, debates checkin_db ! pk) \<and>
      \<not> ballot_in (debates checkin_db ! pk) \<and>
      snd (post_ballot_checkin checkin_db tab_user 1 ''room 1'') =
        checkin_db\<lparr>debates := (debates checkin_db)
                      [pk := (debates checkin_db ! pk)\<lparr>ballot_in := True\<rparr>],
                   actionlog := actionlog checkin_db @ [checkin_entry tab_user pk]\<rparr>)"
proof -
  have f1: "fst (post_ballot_checkin checkin_db tab_user 1 ''Room 9'') =
     Inr (CheckinFailure (NoVenueNamed ''Room 9''))"
    by code_simp
  have f2: "fst (post_ballot_checkin two_rooms_db tab_user 1 ''room 1'') =
     Inl MultipleObjectsReturned"
    by code_simp
  have f3: "fst (post_ballot_checkin checkin_db tab_user 1 ''room 1'') =
     Inr (CheckinSuccess ''Room 1'' ''Aff vs Neg'' 0)"
    by code_simp
  note t1 = checkin_frame [of checkin_db tab_user 1 "''Room 9''" "NoVenueNamed ''Room 9''",
      THEN conjunct1, THEN mp, OF f1]
  note t2 = checkin_frame [of two_rooms_db tab_user 1 "''room 1''" _ MultipleObjectsReturned,
      THEN conjunct2, THEN conjunct1, THEN mp, OF f2]
  note t3 = checkin_frame [of checkin_db tab_user 1 "''room 1''" _ _ "''Room 1''"
      "''Aff vs Neg''" 0, THEN conjunct2, THEN conjunct2, THEN mp, OF f3]
  show ?thesis by (intro conjI f1 f2 f3 t1 t2 t3)
qed

section \<open>Theorems: float rounding\<close>

lemma of_int_bitlen_bounds:
  assumes "0 < p"
  shows "power_int 2 (bitlen p - 1) \<le> (of_int p :: rat) \<and> (of_int p :: rat) < power_int 2 (bitlen p)"
proof -
  from bitlen_bounds [OF assms] have lo: "2 ^ nat (bitlen p - 1) \<le> p" and hi: "p < 2 ^ nat (bitlen p)"
    by simp_all
  have b1: "1 \<le> bitlen p"
    using assms bitlen_nonneg [of p] bitlen_eq_zero_iff [of p] by linarith
  from lo have "(of_int (2 ^ nat (bitlen p - 1)) :: rat) \<le> of_int p"
    by (simp only: of_int_le_iff)
  moreover from hi have "(of_int p :: rat) < of_int (2 ^ nat (bitlen p))"
    by (simp only: of_int_less_iff)
  ultimately show ?thesis
    using b1 by (simp add: power_int_def)
qed

lemma ilog2_bounds:
  assumes "0 < x"
  shows "power_int 2 (ilog2 x) \<le> x \<and> x < power_int 2 (ilog2 x + 1)"
proof -
  obtain p q where pq: "quotient_of x = (p, q)" by (cases "quotient_of x")
  then have q: "0 < q" and x: "x = of_int p / of_int q"
    by (simp_all add: quotient_of_denom_pos quotient_of_div)
  with assms have p: "0 < p"
    by (simp add: zero_less_divide_iff)
  let ?e = "bitlen p - bitlen q"
  note bp = of_int_bitlen_bounds [OF p] and bq = of_int_bitlen_bounds [OF q]
  have qpos: "(0::rat) < of_int q" using q by simp
  have ppos: "(0::rat) < of_int p" using p by simp
  have "x < power_int 2 (bitlen p) / power_int 2 (bitlen q - 1)"
    unfolding x using bp bq ppos
    by (intro frac_less) (auto simp: zero_less_power_int)
  also have "\<dots> = power_int 2 (?e + 1)"
    by (simp add: power_int_diff [symmetric] algebra_simps)
  finally have hi: "x < power_int 2 (?e + 1)" .
  have "power_int 2 (bitlen p - 1) / power_int 2 (bitlen q) < x"
    unfolding x using bp bq qpos
    by (intro frac_less2) (auto simp: zero_less_power_int)
  moreover have "power_int 2 (bitlen p - 1) / power_int 2 (bitlen q) = (power_int 2 (?e - 1) :: rat)"
    by (simp add: power_int_diff [symmetric] algebra_simps)
  ultimately have lo: "power_int 2 (?e - 1) < x" by simp
  show ?thesis
  proof (cases "power_int 2 ?e \<le> x")
    case True
    with pq hi show ?thesis by (simp add: ilog2_def)
  next
    case False
    with pq lo show ?thesis by (simp add: ilog2_def)
  qed
qed

lemma ilog2_unique:
  assumes "power_int 2 k \<le> x" and "x < power_int 2 (k + 1)"
  shows "ilog2 x = k"
proof -
  have "(0::rat) < power_int 2 k" by (simp add: zero_less_power_int)
  with assms(1) have pos: "0 < x" by linarith
  from ilog2_bounds [OF pos] have b: "power_int 2 (ilog2 x) \<le> x" "x < power_int 2 (ilog2 x + 1)"
    by simp_all
  have 1: "ilog2 x < k + 1"
  proof (rule ccontr)
    assume "\<not> ilog2 x < k + 1"
    then have "power_int (2::rat) (k + 1) \<le> power_int 2 (ilog2 x)"
      by (intro power_int_increasing) simp_all
    with b(1) assms(2) show False by linarith
  qed
  have 2: "k < ilog2 x + 1"
  proof (rule ccontr)
    assume "\<not> k < ilog2 x + 1"
    then have "power_int (2::rat) (ilog2 x + 1) \<le> power_int 2 k"
      by (intro power_int_increasing) simp_all
    with b(2) assms(1) show False by linarith
  qed
  from 1 2 show ?thesis by simp
qed

lemma round_even_of_int [simp]: "round_even (of_int m) = m"
  by (simp add: round_even_def)

lemma round_even_cases: "round_even x = \<lfloor>x\<rfloor> \<or> round_even x = \<lfloor>x\<rfloor> + 1"
  by (simp add: round_even_def Let_def)

lemma round_even_ge:
  assumes "of_int n \<le> x"
  shows "n \<le> round_even x"
proof -
  from assms have "n \<le> \<lfloor>x\<rfloor>" by (simp add: le_floor_iff)
  with round_even_cases [of x] show ?thesis by auto
qed

lemma pw_split: "power_int (2::rat) j * power_int 2 e = power_int 2 (j + e)"
  by (simp add: power_int_add)

lemma round_even_le:
  assumes "x \<le> of_int n"
  shows "round_even x \<le> n"
proof (cases "x = of_int n")
  case True
  then show ?thesis by simp
next
  case False
  with assms have "x < of_int n" by simp
  then have "\<lfloor>x\<rfloor> < n" by (simp add: floor_less_iff)
  with round_even_cases [of x] show ?thesis by auto
qed

lemma round64_float:
  assumes "is_float64 y"
  shows "round64 y = y"
proof (cases "y = 0")
  case True
  then show ?thesis by (simp add: round64_def)
next
  case False
  from assms obtain n where n: "\<bar>y\<bar> = of_int n * power_int 2 (float_exponent y)"
    by (auto simp: is_float64_def)
  have nz: "power_int (2::rat) (float_exponent y) \<noteq> 0" by simp
  from n have "\<bar>y\<bar> / power_int 2 (float_exponent y) = of_int n"
    using nz by (simp add: field_simps)
  then have "round64 y = sgn y * (of_int n * power_int 2 (float_exponent y))"
    using False by (simp add: round64_def)
  also have "\<dots> = sgn y * \<bar>y\<bar>" by (simp only: n)
  also have "\<dots> = y" by (simp add: sgn_mult_abs)
  finally show ?thesis .
qed

lemma ilog2_le:
  assumes "0 < y" and "y \<le> power_int 2 j"
  shows "ilog2 y \<le> j"
proof (rule ccontr)
  assume "\<not> ilog2 y \<le> j"
  then have "j + 1 \<le> ilog2 y" by simp
  then have "power_int (2::rat) (j + 1) \<le> power_int 2 (ilog2 y)"
    by (intro power_int_increasing) simp_all
  moreover have "power_int (2::rat) j < power_int 2 (j + 1)"
    by (intro power_int_strict_increasing) simp_all
  ultimately show False using ilog2_bounds [OF assms(1)] assms(2) by linarith
qed

lemma is_float64_round64: "is_float64 (round64 x)"
proof (cases "x = 0")
  case True
  then show ?thesis by (auto simp: round64_def is_float64_def intro: exI [of _ 0])
next
  case False
  define a where "a = \<bar>x\<bar>"
  define k where "k = ilog2 a"
  define e where "e = float_exponent x"
  define m where "m = round_even (a / power_int 2 e)"
  have apos: "0 < a" using False by (simp add: a_def)
  from ilog2_bounds [OF apos] have kb: "power_int 2 k \<le> a" "a < power_int 2 (k + 1)"
    by (simp_all add: k_def)
  have e: "e = max (k - 52) (- 1074)"
    by (simp add: e_def float_exponent_def k_def a_def)
  have epos: "(0::rat) < power_int 2 e" by (simp add: zero_less_power_int)
  have m0: "0 \<le> m"
    unfolding m_def using apos epos by (intro round_even_ge) simp
  have y: "round64 x = sgn x * of_int m * power_int 2 e"
    using False by (simp add: round64_def m_def e_def a_def)
  have absy: "\<bar>round64 x\<bar> = of_int m * power_int 2 e"
    using False m0 epos by (simp add: y abs_mult)
  define M52 :: int where "M52 = 2 ^ 52"
  define M53 :: int where "M53 = 2 ^ 53"
  define P52 :: rat where "P52 = power_int 2 52"
  define P53 :: rat where "P53 = power_int 2 53"
  have MP: "of_int M52 = P52" "of_int M53 = P53"
    by (simp_all add: M52_def M53_def P52_def P53_def)
  have MM: "M53 = 2 * M52" "0 < M52"
    by (simp_all add: M52_def M53_def)
  have P52e: "P52 * power_int 2 e = power_int 2 (52 + e)"
    and P53e: "P53 * power_int 2 e = power_int 2 (53 + e)"
    unfolding P52_def P53_def by (rule pw_split)+
  show ?thesis
  proof (cases "m = 0")
    case True
    then show ?thesis by (auto simp: y is_float64_def intro: exI [of _ 0])
  next
    case mnz: False
    with m0 have m1: "1 \<le> m" by simp
    have ypos: "0 < \<bar>round64 x\<bar>"
      unfolding absy using m1 epos by simp
    show ?thesis
    proof (cases "- 1074 \<le> k - 52")
      case normal: True
      then have ek: "e = k - 52" using e by simp
      then have k52: "52 + e = k" and k53: "53 + e = k + 1" by simp_all
      have "P52 * power_int 2 e \<le> a"
        using kb(1) unfolding P52e k52 .
      then have "of_int M52 \<le> a / power_int 2 e"
        unfolding MP using epos by (simp add: field_simps)
      then have mlo: "M52 \<le> m"
        unfolding m_def by (rule round_even_ge)
      have "a < P53 * power_int 2 e"
        using kb(2) unfolding P53e k53 .
      then have "a / power_int 2 e \<le> of_int M53"
        unfolding MP using epos by (simp add: field_simps)
      then have mhi: "m \<le> M53"
        unfolding m_def by (rule round_even_le)
      show ?thesis
      proof (cases "m = M53")
        case True
        have "\<bar>round64 x\<bar> = P53 * power_int 2 e"
          by (simp add: absy True MP)
        then have v: "\<bar>round64 x\<bar> = power_int 2 (k + 1)"
          unfolding P53e k53 .
        have "power_int (2::rat) (k + 1) < power_int 2 (k + 1 + 1)"
          by (intro power_int_strict_increasing) simp_all
        then have "ilog2 \<bar>round64 x\<bar> = k + 1"
          unfolding v by (intro ilog2_unique) simp_all
        then have fe: "float_exponent (round64 x) = e + 1"
          using normal by (simp add: float_exponent_def ek)
        have "P52 * power_int 2 (e + 1) = power_int 2 (52 + (e + 1))"
          unfolding P52_def by (rule pw_split)
        also have "52 + (e + 1) = k + 1" using ek by simp
        finally have "\<bar>round64 x\<bar> = of_int M52 * power_int 2 (e + 1)"
          unfolding v MP by simp
        then show ?thesis
          unfolding is_float64_def fe by blast
      next
        case False
        with mhi have "m < M53" by simp
        then have "(of_int m :: rat) < of_int M53"
          by (simp only: of_int_less_iff)
        then have mlt: "(of_int m :: rat) < P53" unfolding MP .
        from mlo have "(of_int M52 :: rat) \<le> of_int m"
          by (simp only: of_int_le_iff)
        then have mge: "P52 \<le> (of_int m :: rat)" unfolding MP .
        have "P52 * power_int 2 e \<le> of_int m * power_int 2 e"
          using mge epos by (intro mult_right_mono) simp_all
        then have lo: "power_int 2 k \<le> \<bar>round64 x\<bar>"
          unfolding P52e k52 absy .
        have "of_int m * power_int 2 e < P53 * power_int 2 e"
          using mlt epos by (intro mult_strict_right_mono) simp_all
        then have hi: "\<bar>round64 x\<bar> < power_int 2 (k + 1)"
          unfolding P53e k53 absy .
        from ilog2_unique [OF lo hi] have fe: "float_exponent (round64 x) = e"
          using normal by (simp add: float_exponent_def ek)
        show ?thesis
          unfolding is_float64_def fe using absy by blast
      qed
    next
      case subnormal: False
      then have ee: "e = - 1074" using e by simp
      then have k52: "52 + e = - 1022" by simp
      from subnormal have "k + 1 \<le> - 1022" by simp
      then have "power_int (2::rat) (k + 1) \<le> power_int 2 (- 1022)"
        by (intro power_int_increasing) simp_all
      with kb(2) have "a < power_int 2 (- 1022)" by linarith
      then have "a < P52 * power_int 2 e"
        unfolding P52e k52 .
      then have "a / power_int 2 e \<le> of_int M52"
        unfolding MP using epos by (simp add: field_simps)
      then have "m \<le> M52"
        unfolding m_def by (rule round_even_le)
      then have "(of_int m :: rat) \<le> of_int M52"
        by (simp only: of_int_le_iff)
      then have "(of_int m :: rat) \<le> P52" unfolding MP .
      then have "of_int m * power_int 2 e \<le> P52 * power_int 2 e"
        using epos by (intro mult_right_mono) simp_all
      then have "\<bar>round64 x\<bar> \<le> power_int 2 (- 1022)"
        unfolding P52e k52 absy .
      from ilog2_le [OF ypos this] have fe: "float_exponent (round64 x) = e"
        by (simp add: float_exponent_def ee)
      show ?thesis
        unfolding is_float64_def fe using absy by blast
    qed
  qed
qed

lemma round64_idem [simp]: "round64 (round64 x) = round64 x"
  by (rule round64_float) (rule is_float64_round64)

lemma round64_0 [simp]: "round64 0 = 0"
  by (simp add: round64_def)

lemma float_of_int_0 [simp]: "float_of_int 0 = 0"
  by (simp add: float_of_int_def)

lemma fadd_0_float: "is_float64 b \<Longrightarrow> fadd 0 b = b"
  by (simp add: fadd_def round64_float)

lemma is_float64_minutes_ago: "is_float64 (minutes_ago now time)"
  by (simp add: minutes_ago_def Let_def fadd_def is_float64_round64)

lemma time_period_0:
  "is_float64 st \<Longrightarrow> time_period ch st 0 = st"
  by (simp add: time_period_def fmul_def fadd_0_float)

lemma time_period_collapse:
  "is_float64 st \<Longrightarrow> time_period (fdiv (fsub st st) d) st i = st"
  by (simp add: time_period_def fmul_def fdiv_def fsub_def fadd_0_float)

text \<open>
  An integer below \<open>2 ^ 53\<close> in absolute value is a float; evaluation takes it as it
  is and rounds everything else.
\<close>

lemma round64_of_int_small:
  assumes "\<bar>n\<bar> < 2 ^ 53"
  shows "round64 (of_int n) = of_int n"
proof (cases "n = 0")
  case True
  then show ?thesis by simp
next
  case False
  let ?x = "of_int n :: rat"
  let ?e = "float_exponent ?x"
  have pos: "0 < \<bar>?x\<bar>" using False by simp
  have "(of_int \<bar>n\<bar> :: rat) < of_int (2 ^ 53)"
    using assms by (simp only: of_int_less_iff)
  then have "\<bar>?x\<bar> \<le> power_int 2 53" by simp
  have lt: "\<bar>?x\<bar> < power_int 2 53"
    using \<open>(of_int \<bar>n\<bar> :: rat) < of_int (2 ^ 53)\<close> by simp
  have "ilog2 \<bar>?x\<bar> < 53"
  proof (rule ccontr)
    assume "\<not> ilog2 \<bar>?x\<bar> < 53"
    then have "power_int (2::rat) 53 \<le> power_int 2 (ilog2 \<bar>?x\<bar>)"
      by (intro power_int_increasing) simp_all
    with ilog2_bounds [OF pos] lt show False by linarith
  qed
  then have e: "?e \<le> 0" by (simp add: float_exponent_def)
  have "power_int (2::rat) ?e * power_int 2 (- ?e) = 1"
    by (simp add: power_int_add [symmetric])
  moreover have "power_int (2::rat) (- ?e) = of_int (2 ^ nat (- ?e))"
    using e by (simp add: power_int_def)
  ultimately have "\<bar>?x\<bar> = of_int (\<bar>n\<bar> * 2 ^ nat (- ?e)) * power_int 2 ?e"
    by (simp add: mult.assoc mult.commute)
  then have "is_float64 ?x"
    unfolding is_float64_def by blast
  then show ?thesis by (rule round64_float)
qed

lemma round64_code [code]:
  "round64 x =
     (let (p, q) = quotient_of x
      in if q = 1 \<and> \<bar>p\<bar> < 2 ^ 53 then x
         else sgn x * of_int (round_even (\<bar>x\<bar> / power_int 2 (float_exponent x))) *
                power_int 2 (float_exponent x))"
proof -
  obtain p q where pq: "quotient_of x = (p, q)" by (cases "quotient_of x")
  show ?thesis
  proof (cases "q = 1 \<and> \<bar>p\<bar> < 2 ^ 53")
    case True
    with quotient_of_div [OF pq] have "x = of_int p" by simp
    with True pq show ?thesis by (simp add: round64_of_int_small)
  next
    case False
    have "x \<noteq> 0"
    proof
      assume "x = 0"
      with pq have "p = 0" "q = 1" by simp_all
      with False show False by simp
    qed
    with False pq show ?thesis by (auto simp: round64_def)
  qed
qed

section \<open>Theorems: the submission timeline\<close>

lemma count_ballots_clock:
  "snd (count_ballots clk k tp bs stat) = k + length bs"
  by (induction clk k tp bs stat rule: count_ballots.induct) simp_all

lemma count_ballots_minutes:
  "fst (fst (count_ballots clk k tp bs stat)) = fst stat"
  by (induction clk k tp bs stat rule: count_ballots.induct) simp_all


lemma length_stats_loop:
  "length (stats_loop clk k ch st n bs is) = length is"
  by (induction "is" arbitrary: k) (simp_all add: Let_def split: prod.splits)

lemma stats_loop_nth:
  "i < length is \<Longrightarrow>
   stats_loop clk k ch st n bs is ! i =
     fst (count_ballots clk (k + i * length bs) (time_period ch st (is ! i)) bs
            (py_int (time_period ch st (is ! i)), n, 0, 0))"
proof (induction "is" arbitrary: k i)
  case Nil
  then show ?case by simp
next
  case (Cons j js)
  let ?tp = "time_period ch st j"
  obtain stat k' where c: "count_ballots clk k ?tp bs (py_int ?tp, n, 0, 0) = (stat, k')"
    by (cases "count_ballots clk k ?tp bs (py_int ?tp, n, 0, 0)")
  have k': "k' = k + length bs"
    using count_ballots_clock [of clk k ?tp bs "(py_int ?tp, n, 0, 0)"] c by simp
  show ?case
  proof (cases i)
    case 0
    with c show ?thesis by simp
  next
    case (Suc i')
    with Cons.prems have "i' < length js" by simp
    from Cons.IH [OF this, of k'] c Suc show ?thesis
      by (simp add: k' add.assoc add.commute)
  qed
qed


lemma ballots_status_nonempty:
  assumes "round_ballots s (round_pk (current_round t)) \<noteq> []"
  shows "ballots_status s t clk =
     stats_loop clk 2 (chunks clk (round_ballots s (round_pk (current_round t))))
       (start_entry clk (round_ballots s (round_pk (current_round t))))
       (debates_count s (round_pk (current_round t)))
       (round_ballots s (round_pk (current_round t))) [0..<intervals + 1]"
  using assms by (simp add: ballots_status_def Let_def)

lemma ballots_status_nth:
  assumes "round_ballots s (round_pk (current_round t)) \<noteq> []" and "i \<le> intervals"
  shows "ballots_status s t clk ! i =
     fst (count_ballots clk (2 + i * length (round_ballots s (round_pk (current_round t))))
            (time_period (chunks clk (round_ballots s (round_pk (current_round t))))
               (start_entry clk (round_ballots s (round_pk (current_round t)))) i)
            (round_ballots s (round_pk (current_round t)))
            (py_int (time_period (chunks clk (round_ballots s (round_pk (current_round t))))
               (start_entry clk (round_ballots s (round_pk (current_round t)))) i),
             debates_count s (round_pk (current_round t)), 0, 0))"
proof -
  from assms(2) have i: "i < length [0..<intervals + 1]" and nth: "[0..<intervals + 1] ! i = i"
    by (simp_all add: nth_upt del: upt_Suc)
  show ?thesis
    unfolding ballots_status_nonempty [OF assms(1)] stats_loop_nth [OF i] nth ..
qed

lemma ballots_status_minutes:
  assumes "round_ballots s (round_pk (current_round t)) \<noteq> []" and "i \<le> intervals"
  shows "fst (ballots_status s t clk ! i) =
     py_int (time_period (chunks clk (round_ballots s (round_pk (current_round t))))
               (start_entry clk (round_ballots s (round_pk (current_round t)))) i)"
  unfolding ballots_status_nth [OF assms] count_ballots_minutes by simp

text \<open>
  Two submissions made 73 and 21 seconds ago: the threshold of the specification for
  sample 5 is exactly one minute, the threshold the view computes in floats is the
  float just below one, and the sample shows 0 minutes.
\<close>

theorem ballots_status_rounding_counterexample:
  "map (\<lambda>(b, d). exact_minutes_ago 6000000000 (timestamp b)) (round_ballots rounding_db 1) =
     [73 / 60, 21 / 60] \<and>
   spec_threshold fixed_clock (round_ballots rounding_db 1) 5 = 1 \<and>
   time_period (chunks fixed_clock (round_ballots rounding_db 1))
     (start_entry fixed_clock (round_ballots rounding_db 1)) 5 =
     9007199254740991 / 9007199254740992 \<and>
   fst (ballots_status rounding_db round1_tournament fixed_clock ! 5) = 0"
proof -
  have rnd: "round_pk (current_round round1_tournament) = 1"
    by (simp add: round1_tournament_def)
  have some: "round_ballots rounding_db (round_pk (current_round round1_tournament)) \<noteq> []"
    by code_simp
  have i5: "5 \<le> intervals"
    by (simp add: intervals_def)
  have exact: "map (\<lambda>(b, d). exact_minutes_ago 6000000000 (timestamp b))
      (round_ballots rounding_db 1) = [73 / 60, 21 / 60]"
    by code_simp
  have spec: "spec_threshold fixed_clock (round_ballots rounding_db 1) 5 = 1"
    by code_simp
  have st: "start_entry fixed_clock (round_ballots rounding_db 1) =
      5479379546634103 / 4503599627370496"
    by code_simp
  have en: "end_entry fixed_clock (round_ballots rounding_db 1) =
      3152519739159347 / 9007199254740992"
    by code_simp
  have ch: "chunks fixed_clock (round_ballots rounding_db 1) =
      - (6244991483287087 / 144115188075855872)"
    unfolding chunks_def st en by code_simp
  have tp: "time_period (chunks fixed_clock (round_ballots rounding_db 1))
      (start_entry fixed_clock (round_ballots rounding_db 1)) 5 =
      9007199254740991 / 9007199254740992"
    unfolding ch st by code_simp
  have "py_int (9007199254740991 / 9007199254740992) = 0"
    by code_simp
  then have shown: "fst (ballots_status rounding_db round1_tournament fixed_clock ! 5) = 0"
    using ballots_status_minutes [OF some i5, of fixed_clock] unfolding rnd tp by simp
  show ?thesis by (intro conjI exact spec tp shown)
qed

text \<open>
  Claim C5, as the code has it: with no submission in the round the view returns the
  empty list. Otherwise it returns \<open>intervals + 1\<close> samples; sample \<open>i\<close> is the count of
  the submissions against the threshold \<open>time_period\<close>, which is the formula of the
  specification evaluated in floats (the span divided by \<open>intervals\<close>, times \<open>i\<close>, plus
  earliest, each operation rounded), and shows that threshold truncated to an integer.
  The threshold of sample 0 is earliest, and when latest equals earliest every
  threshold is earliest. The only divisor is \<open>intervals\<close>, which is not zero.
\<close>

theorem ballots_status_samples:
  "(round_ballots s (round_pk (current_round t)) = [] \<longrightarrow> ballots_status s t clk = []) \<and>
   (round_ballots s (round_pk (current_round t)) \<noteq> [] \<longrightarrow>
      length (ballots_status s t clk) = intervals + 1 \<and>
      (\<forall>i\<le>intervals.
         ballots_status s t clk ! i =
           fst (count_ballots clk (2 + i * length (round_ballots s (round_pk (current_round t))))
                  (time_period (chunks clk (round_ballots s (round_pk (current_round t))))
                     (start_entry clk (round_ballots s (round_pk (current_round t)))) i)
                  (round_ballots s (round_pk (current_round t)))
                  (py_int (time_period (chunks clk (round_ballots s (round_pk (current_round t))))
                     (start_entry clk (round_ballots s (round_pk (current_round t)))) i),
                   debates_count s (round_pk (current_round t)), 0, 0)) \<and>
         fst (ballots_status s t clk ! i) =
           py_int (time_period (chunks clk (round_ballots s (round_pk (current_round t))))
                     (start_entry clk (round_ballots s (round_pk (current_round t)))) i) \<and>
         time_period (chunks clk (round_ballots s (round_pk (current_round t))))
             (start_entry clk (round_ballots s (round_pk (current_round t)))) i =
           fadd (fmul (float_of_int (int i))
                   (fdiv (fsub (end_entry clk (round_ballots s (round_pk (current_round t))))
                            (start_entry clk (round_ballots s (round_pk (current_round t)))))
                      (float_of_int (int intervals))))
             (start_entry clk (round_ballots s (round_pk (current_round t)))) \<and>
         (end_entry clk (round_ballots s (round_pk (current_round t))) =
            start_entry clk (round_ballots s (round_pk (current_round t))) \<longrightarrow>
          time_period (chunks clk (round_ballots s (round_pk (current_round t))))
             (start_entry clk (round_ballots s (round_pk (current_round t)))) i =
            start_entry clk (round_ballots s (round_pk (current_round t))))) \<and>
      time_period (chunks clk (round_ballots s (round_pk (current_round t))))
          (start_entry clk (round_ballots s (round_pk (current_round t)))) 0 =
        start_entry clk (round_ballots s (round_pk (current_round t)))) \<and>
   float_of_int (int intervals) \<noteq> 0"
proof -
  let ?bs = "round_ballots s (round_pk (current_round t))"
  let ?n = "debates_count s (round_pk (current_round t))"
  let ?tp = "time_period (chunks clk ?bs) (start_entry clk ?bs)"
  have fl: "is_float64 (start_entry clk ?bs)"
    unfolding start_entry_def by (rule is_float64_minutes_ago)
  have empty: "ballots_status s t clk = []" if "?bs = []"
    using that by (simp add: ballots_status_def)
  have len: "length (ballots_status s t clk) = intervals + 1" if "?bs \<noteq> []"
    using ballots_status_nonempty [OF that] by (simp add: length_stats_loop)
  have sample: "ballots_status s t clk ! i =
      fst (count_ballots clk (2 + i * length ?bs) (?tp i) ?bs (py_int (?tp i), ?n, 0, 0))"
    if "?bs \<noteq> []" and "i \<le> intervals" for i
    using that by (rule ballots_status_nth)
  have shown: "fst (ballots_status s t clk ! i) = py_int (?tp i)"
    if "?bs \<noteq> []" and "i \<le> intervals" for i
    using that by (rule ballots_status_minutes)
  have formula: "?tp i =
      fadd (fmul (float_of_int (int i))
              (fdiv (fsub (end_entry clk ?bs) (start_entry clk ?bs))
                 (float_of_int (int intervals))))
        (start_entry clk ?bs)" for i
    by (simp add: time_period_def chunks_def)
  have collapse: "?tp i = start_entry clk ?bs"
    if "end_entry clk ?bs = start_entry clk ?bs" for i
    unfolding chunks_def that by (rule time_period_collapse [OF fl])
  have first: "?tp 0 = start_entry clk ?bs"
    by (rule time_period_0 [OF fl])
  have "float_of_int (int intervals) = 20"
    by code_simp
  then have "float_of_int (int intervals) \<noteq> 0"
    by simp
  with empty len sample shown formula collapse first show ?thesis by blast
qed

text \<open>
  Claim C5 on a round without submissions, on the round of the scenario below, and on a
  round with a single submission, where earliest and latest coincide.
\<close>

theorem ballots_status_samples_witness:
  "ballots_status checkin_db round1_tournament fixed_clock = [] \<and>
   length (ballots_status histogram_db round1_tournament fixed_clock) = 21 \<and>
   fst (ballots_status histogram_db round1_tournament fixed_clock ! 20) = 10 \<and>
   fst (ballots_status draft_db round1_tournament fixed_clock ! 7) = 30 \<and>
   time_period (chunks fixed_clock (round_ballots draft_db 1))
     (start_entry fixed_clock (round_ballots draft_db 1)) 7 = 30"
proof -
  have rnd: "round_pk (current_round round1_tournament) = 1"
    by (simp add: round1_tournament_def)
  have none: "round_ballots checkin_db (round_pk (current_round round1_tournament)) = []"
    by code_simp
  have some: "round_ballots histogram_db (round_pk (current_round round1_tournament)) \<noteq> []"
    by code_simp
  have one: "round_ballots draft_db (round_pk (current_round round1_tournament)) \<noteq> []"
    by code_simp
  have same: "end_entry fixed_clock (round_ballots draft_db (round_pk (current_round round1_tournament))) =
      start_entry fixed_clock (round_ballots draft_db (round_pk (current_round round1_tournament)))"
    by code_simp
  have i20: "20 \<le> intervals" and i7: "7 \<le> intervals"
    by (simp_all add: intervals_def)
  have t20: "py_int (time_period (chunks fixed_clock (round_ballots histogram_db 1))
      (start_entry fixed_clock (round_ballots histogram_db 1)) 20) = 10"
    by code_simp
  have st: "start_entry fixed_clock (round_ballots draft_db 1) = 30"
    by code_simp
  have c1: "ballots_status checkin_db round1_tournament fixed_clock = []"
    by (rule ballots_status_samples [of checkin_db round1_tournament fixed_clock,
          THEN conjunct1, THEN mp, OF none])
  note h = ballots_status_samples [of histogram_db round1_tournament fixed_clock,
          THEN conjunct2, THEN conjunct1, THEN mp, OF some]
  have c2: "length (ballots_status histogram_db round1_tournament fixed_clock) = 21"
    using h [THEN conjunct1] by (simp add: intervals_def)
  have c3: "fst (ballots_status histogram_db round1_tournament fixed_clock ! 20) = 10"
    using h [THEN conjunct2, THEN conjunct1, THEN spec, THEN mp, OF i20,
        THEN conjunct2, THEN conjunct1]
    unfolding rnd t20 .
  note d = ballots_status_samples [of draft_db round1_tournament fixed_clock,
          THEN conjunct2, THEN conjunct1, THEN mp, OF one, THEN conjunct2, THEN conjunct1,
          THEN spec, THEN mp, OF i7, THEN conjunct2]
  have c5: "time_period (chunks fixed_clock (round_ballots draft_db 1))
     (start_entry fixed_clock (round_ballots draft_db 1)) 7 = 30"
    using d [THEN conjunct2, THEN conjunct2, THEN mp, OF same] unfolding rnd st .
  have "py_int 30 = 30"
    by (simp add: py_int_def)
  then have c4: "fst (ballots_status draft_db round1_tournament fixed_clock ! 7) = 30"
    using d [THEN conjunct1] unfolding rnd c5 by simp
  show ?thesis by (intro conjI c1 c2 c3 c4 c5)
qed

text \<open>
  The scenario of claim C6: ten debates, three of them confirmed, each with one confirmed
  submission made 30, 20 and 10 minutes ago. The first sample, at 30 minutes ago, counts
  one confirmed submission and nine debates not yet entered.
\<close>

theorem histogram_scenario_counterexample:
  "debates_count histogram_db 1 = 10 \<and>
   map (\<lambda>(b, d). (minutes_ago 6000000000 (timestamp b), confirmed b, result_status d))
     (round_ballots histogram_db 1) =
     [(30, True, STATUS_CONFIRMED), (20, True, STATUS_CONFIRMED), (10, True, STATUS_CONFIRMED)] \<and>
   ballots_status histogram_db round1_tournament fixed_clock ! 0 = (30, 9, 0, 1) \<and>
   ballots_status histogram_db round1_tournament fixed_clock ! 0 \<noteq> (30, 7, 0, 3)"
  by code_simp

text \<open>
  Claim C6, as the code has it: in the scenario the earliest checkpoint (30 minutes ago)
  reports one confirmed and nine not yet entered, and the latest checkpoint (10 minutes
  ago) reports three confirmed and seven not yet entered; the 21 samples are these.
\<close>

theorem histogram_scenario:
  "ballots_status histogram_db round1_tournament fixed_clock =
     [(30, 9, 0, 1), (29, 9, 0, 1), (28, 9, 0, 1), (27, 9, 0, 1), (26, 9, 0, 1),
      (25, 9, 0, 1), (24, 9, 0, 1), (23, 9, 0, 1), (22, 9, 0, 1), (21, 9, 0, 1),
      (20, 8, 0, 2), (19, 8, 0, 2), (18, 8, 0, 2), (17, 8, 0, 2), (16, 8, 0, 2),
      (15, 8, 0, 2), (14, 8, 0, 2), (13, 8, 0, 2), (12, 8, 0, 2), (11, 8, 0, 2),
      (10, 7, 0, 3)]"
  by code_simp



section \<open>Theorems: entering and confirming submissions\<close>

text \<open>The staff view refuses a debate without a chair and writes nothing.\<close>

lemma new_ballotset_no_chair:
  assumes "lookup (debates s) pk = Some d" and "\<not> has_chair d"
  shows "new_ballotset s now request pk = (Inr (Redirect (round_id d) NoChairMessage), s)"
  using assms by (simp add: new_ballotset_def)

text \<open>
  Claim C7 at a debate without a chair: \<^verbatim>\<open>new_ballotset\<close> redirects with the
  message that the debate has no chair and leaves the database as it was, while
  \<^verbatim>\<open>public_new_ballotset\<close>, for an adjudicator of that debate in a released round,
  accepts the posted form and saves the submission as version 1.
\<close>

theorem public_new_ballotset_no_chair:
  "\<not> has_chair (debates no_chair_db ! 0) \<and>
   new_ballotset no_chair_db 6000000000 entry_post 0 =
     (Inr (Redirect 1 NoChairMessage), no_chair_db) \<and>
   fst (public_new_ballotset no_chair_db 6000000000 round1_tournament entry_post 5) =
     Inr RenderPublicSuccess \<and>
   ballotsubs (snd (public_new_ballotset no_chair_db 6000000000 round1_tournament entry_post 5)) =
     [public_sub]"
  by code_simp

text \<open>
  Claim C8 at the submitter of a submission, who is no superuser, under a tournament that
  does not disable ballot confirmation. The rendered form carries
  \<open>disable_confirm = True\<close>: the view holds the policy that this user may not confirm
  this submission. The same user's post with the confirmed box ticked is not refused:
  the view confirms the submission with the submitter as confirmer.
\<close>

theorem edit_ballotset_self_confirm:
  "submitter (ballotsubs draft_db ! 0) = Some (user_id (req_user confirm_post)) \<and>
   \<not> disable_ballot_confirms round1_tournament \<and>
   \<not> is_superuser (req_user confirm_post) \<and>
   \<not> has_confirmed_submission draft_db 0 \<and>
   edit_ballotset draft_db 6000000000 round1_tournament
       (confirm_post\<lparr>request_method := GET\<rparr>) 0 =
     (Inr (RenderEdit \<lparr>edit_template = ''assistant_enter_results.html'',
             edit_all_ballotsubs = [0], disable_confirm = True,
             edit_not_singleton = False\<rparr>), draft_db) \<and>
   edit_ballotset draft_db 6000000000 round1_tournament confirm_post 0 =
     (Inr (Redirect 1 ConfirmedMessage), self_confirmed_db) \<and>
   has_confirmed_submission self_confirmed_db 0 \<and>
   map confirmer (ballotsubs self_confirmed_db) = [Some 7]"
  by code_simp

lemma ballotsubs_set_result_status [simp]:
  "ballotsubs (set_result_status d st s) = ballotsubs s"
  by (simp add: set_result_status_def split: option.splits)

lemma ballotsubs_log_action [simp]:
  "ballotsubs (log_action e s) = ballotsubs s"
  by (simp add: log_action_def)

lemma length_unconfirm_others [simp]:
  "length (unconfirm_others d pk rows) = length rows"
  by (simp add: unconfirm_others_def)

lemma nth_unconfirm_others:
  "i < length rows \<Longrightarrow>
   unconfirm_others d pk rows ! i =
     (if i \<noteq> pk \<and> debate_id (rows ! i) = d \<and> confirmed (rows ! i)
      then unconfirm (rows ! i) else rows ! i)"
  by (simp add: unconfirm_others_def nth_enumerate_eq)

lemma ballotsubs_ballotsub_save:
  "ballotsubs (ballotsub_save s pk b) =
     (if confirmed b then unconfirm_others (debate_id b) pk (ballotsubs s)
      else ballotsubs s)[pk := b]"
  by (simp add: ballotsub_save_def Let_def)

text \<open>
  The same for every request: the post branch of \<^verbatim>\<open>edit_ballotset\<close> confirms
  without looking at who the user is, and only a request that is not a valid post
  computes \<open>disable_confirm\<close>, from the user, the submitter and the preference.
\<close>

lemma edit_ballotset_post_ignores_user:
  assumes "lookup (ballotsubs s) pk = Some b"
    and "lookup (debates s) (debate_id b) = Some d"
    and "\<not> discarded b"
  shows "(request_method request = POST \<and> form_valid (post request) \<and>
          form_confirmed (post request) \<and> \<not> form_discarded (post request) \<longrightarrow>
            fst (edit_ballotset s now t request pk) =
              Inr (Redirect (round_id d) ConfirmedMessage) \<and>
            lookup (ballotsubs (snd (edit_ballotset s now t request pk))) pk =
              Some (b\<lparr>confirmed := True, content := form_content (post request),
                      confirmer := Some (user_id (req_user request)),
                      confirm_timestamp := Some now\<rparr>)) \<and>
         (\<not> (request_method request = POST \<and> form_valid (post request)) \<longrightarrow>
            snd (edit_ballotset s now t request pk) = s \<and>
            (\<exists>ctx. fst (edit_ballotset s now t request pk) = Inr (RenderEdit ctx) \<and>
               disable_confirm ctx =
                 (Some (user_id (req_user request)) = submitter b \<and>
                  \<not> disable_ballot_confirms t \<and> \<not> is_superuser (req_user request))))"
proof (intro conjI impI)
  assume p: "request_method request = POST \<and> form_valid (post request) \<and>
          form_confirmed (post request) \<and> \<not> form_discarded (post request)"
  from assms(1) have len: "pk < length (ballotsubs s)"
    by (simp add: lookup_Some)
  let ?b1 = "b\<lparr>discarded := False, confirmed := True, content := form_content (post request)\<rparr>"
  have fs: "form_save s pk b (post request) = (?b1, ballotsub_save s pk ?b1)"
    using assms(3) p by (simp add: form_save_def Let_def)
  have b1: "\<not> discarded ?b1" "confirmed ?b1" by simp_all
  show "fst (edit_ballotset s now t request pk) = Inr (Redirect (round_id d) ConfirmedMessage)"
    using assms(1,2) p by (simp add: edit_ballotset_def fs Let_def)
  have "b\<lparr>discarded := False\<rparr> = b"
    using assms(3) by simp
  then have same: "?b1\<lparr>confirmer := Some (user_id (req_user request)),
                      confirm_timestamp := Some now\<rparr> =
      b\<lparr>confirmed := True, content := form_content (post request),
          confirmer := Some (user_id (req_user request)), confirm_timestamp := Some now\<rparr>"
    by simp
  show "lookup (ballotsubs (snd (edit_ballotset s now t request pk))) pk =
      Some (b\<lparr>confirmed := True, content := form_content (post request),
              confirmer := Some (user_id (req_user request)), confirm_timestamp := Some now\<rparr>)"
    using assms(1,2) p len unfolding same [symmetric]
    by (simp add: edit_ballotset_def fs Let_def ballotsubs_ballotsub_save lookup_def)
next
  assume n: "\<not> (request_method request = POST \<and> form_valid (post request))"
  show "snd (edit_ballotset s now t request pk) = s"
    using assms(1,2) n by (auto simp: edit_ballotset_def Let_def)
  show "\<exists>ctx. fst (edit_ballotset s now t request pk) = Inr (RenderEdit ctx) \<and>
      disable_confirm ctx =
        (Some (user_id (req_user request)) = submitter b \<and>
         \<not> disable_ballot_confirms t \<and> \<not> is_superuser (req_user request))"
    using assms(1,2) n by (auto simp: edit_ballotset_def Let_def)
qed

text \<open>
  Claim C7 at that debate, in numbers: no submission before, one after the public view,
  none after the staff view.
\<close>

theorem public_new_ballotset_no_chair_witness:
  "length (ballotsubs no_chair_db) = 0 \<and>
   length (ballotsubs (snd (public_new_ballotset no_chair_db 6000000000 round1_tournament
      entry_post 5))) = 1 \<and>
   length (ballotsubs (snd (new_ballotset no_chair_db 6000000000 entry_post 0))) = 0"
proof -
  have empty: "length (ballotsubs no_chair_db) = 0"
    by (simp add: no_chair_db_def)
  note both = public_new_ballotset_no_chair
  have staff: "new_ballotset no_chair_db 6000000000 entry_post 0 =
      (Inr (Redirect 1 NoChairMessage), no_chair_db)"
    by (rule both [THEN conjunct2, THEN conjunct1])
  have pub: "ballotsubs (snd (public_new_ballotset no_chair_db 6000000000 round1_tournament
      entry_post 5)) = [public_sub]"
    by (rule both [THEN conjunct2, THEN conjunct2, THEN conjunct2])
  show ?thesis
    unfolding staff pub using empty by simp
qed

section \<open>Theorems: at most one confirmed submission\<close>

lemma confirmed_count_rows:
  "confirmed_count s d = length (filter (live_confirmed d) (ballotsubs s))"
  by (simp add: confirmed_count_def live_confirmed_def [abs_def])

lemma count_filter_mono:
  assumes "length ys = length xs"
    and "\<And>i. i < length xs \<Longrightarrow> P (ys ! i) \<Longrightarrow> P (xs ! i)"
  shows "length (filter P ys) \<le> length (filter P xs)"
proof -
  have "{i. i < length ys \<and> P (ys ! i)} \<subseteq> {i. i < length xs \<and> P (xs ! i)}"
    using assms by auto
  then have "card {i. i < length ys \<and> P (ys ! i)} \<le> card {i. i < length xs \<and> P (xs ! i)}"
    by (intro card_mono) simp_all
  then show ?thesis by (simp add: length_filter_conv_card)
qed

lemma count_filter_at_most_one:
  assumes "\<And>i. i < length xs \<Longrightarrow> P (xs ! i) \<Longrightarrow> i = k"
  shows "length (filter P xs) \<le> 1"
proof -
  have "{i. i < length xs \<and> P (xs ! i)} \<subseteq> {k}"
    using assms by auto
  then have "card {i. i < length xs \<and> P (xs ! i)} \<le> card {k}"
    by (intro card_mono) simp_all
  then show ?thesis by (simp add: length_filter_conv_card)
qed

lemma not_live_unconfirm [simp]: "\<not> live_confirmed d (unconfirm b)"
  by (simp add: live_confirmed_def unconfirm_def)

lemma ballotsub_save_count:
  "confirmed_count (ballotsub_save s pk b) d \<le>
     (if d = debate_id b \<and> confirmed b then 1 else confirmed_count s d)"
proof (cases "d = debate_id b \<and> confirmed b")
  case True
  let ?rows = "(unconfirm_others (debate_id b) pk (ballotsubs s))[pk := b]"
  have "length (filter (live_confirmed d) ?rows) \<le> 1"
  proof (rule count_filter_at_most_one)
    fix i assume i: "i < length ?rows" and l: "live_confirmed d (?rows ! i)"
    show "i = pk"
    proof (rule ccontr)
      assume ne: "i \<noteq> pk"
      with i have "?rows ! i = unconfirm_others (debate_id b) pk (ballotsubs s) ! i"
        by simp
      with i ne l True show False
        by (auto simp: nth_unconfirm_others live_confirmed_def unconfirm_def split: if_splits)
    qed
  qed
  with True show ?thesis
    by (simp add: confirmed_count_rows ballotsubs_ballotsub_save)
next
  case False
  let ?rows = "(if confirmed b then unconfirm_others (debate_id b) pk (ballotsubs s)
               else ballotsubs s)[pk := b]"
  have "length (filter (live_confirmed d) ?rows) \<le>
        length (filter (live_confirmed d) (ballotsubs s))"
  proof (rule count_filter_mono)
    show "length ?rows = length (ballotsubs s)" by simp
  next
    fix i assume i: "i < length (ballotsubs s)" and l: "live_confirmed d (?rows ! i)"
    show "live_confirmed d (ballotsubs s ! i)"
    proof (cases "i = pk")
      case True
      with i l False show ?thesis by (auto simp: live_confirmed_def split: if_splits)
    next
      case ne: False
      with i l show ?thesis
        by (auto simp: nth_unconfirm_others split: if_splits)
    qed
  qed
  with False show ?thesis
    unfolding confirmed_count_rows ballotsubs_ballotsub_save by auto
qed

lemma ballotsub_save_invariant:
  "at_most_one_confirmed s \<Longrightarrow> at_most_one_confirmed (ballotsub_save s pk b)"
  unfolding at_most_one_confirmed_def
proof
  fix d assume a: "\<forall>d. confirmed_count s d \<le> 1"
  from ballotsub_save_count [of s pk b d] a [THEN spec, of d]
  show "confirmed_count (ballotsub_save s pk b) d \<le> 1"
    by (auto split: if_splits)
qed

lemma invariant_ballotsubs_eq:
  "ballotsubs s' = ballotsubs s \<Longrightarrow> at_most_one_confirmed s' = at_most_one_confirmed s"
  by (simp add: at_most_one_confirmed_def confirmed_count_def)

lemma form_save_invariant:
  "at_most_one_confirmed s \<Longrightarrow> at_most_one_confirmed (snd (form_save s pk b form))"
  by (simp add: form_save_def Let_def ballotsub_save_invariant)

lemma form_save_new_ballotsubs:
  "\<exists>b'. \<not> confirmed b' \<and> ballotsubs (snd (form_save_new s now b form)) = ballotsubs s @ [b']"
  by (auto simp: form_save_new_def Let_def split: option.splits)

lemma form_save_new_invariant:
  assumes "at_most_one_confirmed s"
  shows "at_most_one_confirmed (snd (form_save_new s now b form))"
proof -
  from form_save_new_ballotsubs [of s now b form] obtain b' where
    "\<not> confirmed b'" "ballotsubs (snd (form_save_new s now b form)) = ballotsubs s @ [b']"
    by blast
  with assms show ?thesis
    by (simp add: at_most_one_confirmed_def confirmed_count_def)
qed

lemma log_action_invariant [simp]:
  "at_most_one_confirmed (log_action e s) = at_most_one_confirmed s"
  by (rule invariant_ballotsubs_eq) simp

lemma new_ballotset_invariant:
  assumes "at_most_one_confirmed s"
  shows "at_most_one_confirmed (snd (new_ballotset s now request pk))"
  using assms form_save_new_invariant [OF assms]
  by (auto simp: new_ballotset_def Let_def case_prod_beta split: option.splits)

lemma public_new_ballotset_invariant:
  assumes "at_most_one_confirmed s"
  shows "at_most_one_confirmed (snd (public_new_ballotset s now t request adjudicator))"
  using assms form_save_new_invariant [OF assms]
  by (auto simp: public_new_ballotset_def Let_def case_prod_beta
        split: sum.splits exn.splits)

lemma edit_ballotset_invariant:
  assumes "at_most_one_confirmed s"
  shows "at_most_one_confirmed (snd (edit_ballotset s now t request ballotsub_id))"
proof (cases "lookup (ballotsubs s) ballotsub_id")
  case None
  with assms show ?thesis by (simp add: edit_ballotset_def)
next
  case (Some ballotsub)
  show ?thesis
  proof (cases "lookup (debates s) (debate_id ballotsub)")
    case None
    with Some assms show ?thesis by (simp add: edit_ballotset_def)
  next
    case d: (Some debate)
    obtain b1 s1 where fs: "form_save s ballotsub_id ballotsub (post request) = (b1, s1)"
      by (cases "form_save s ballotsub_id ballotsub (post request)")
    from form_save_invariant [OF assms, of ballotsub_id ballotsub "post request"] fs
    have s1: "at_most_one_confirmed s1" by simp
    from s1 have s2: "at_most_one_confirmed (ballotsub_save s1 ballotsub_id b2)" for b2
      by (rule ballotsub_save_invariant)
    from Some d fs assms s1 s2 show ?thesis
      by (simp add: edit_ballotset_def Let_def)
  qed
qed

lemma toggle_postponed_invariant:
  "at_most_one_confirmed (snd (toggle_postponed s pk)) = at_most_one_confirmed s"
  by (rule invariant_ballotsubs_eq) (simp add: toggle_postponed_def Let_def split: option.splits)

lemma post_ballot_checkin_invariant:
  "at_most_one_confirmed (snd (post_ballot_checkin s usr rnd v)) = at_most_one_confirmed s"
  by (rule invariant_ballotsubs_eq)
    (simp add: post_ballot_checkin_def Let_def log_action_def
      split: sum.splits exn.splits prod.splits option.splits)

lemma apply_operation_invariant:
  "at_most_one_confirmed s \<Longrightarrow> at_most_one_confirmed (apply_operation s operation)"
  by (cases operation)
    (simp_all add: new_ballotset_invariant public_new_ballotset_invariant
      edit_ballotset_invariant toggle_postponed_invariant post_ballot_checkin_invariant)

lemma run_invariant:
  "at_most_one_confirmed s \<Longrightarrow> at_most_one_confirmed (run s ops)"
  unfolding run_def
  by (induction ops arbitrary: s) (simp_all add: apply_operation_invariant)

text \<open>
  Claim C1: from a database in which no debate has more than one non-discarded,
  confirmed submission (one without submissions, for instance), after any sequence of
  the writing views (entering a submission as staff or as a public adjudicator, editing,
  confirming or discarding one, toggling postponement, checking a ballot in), every
  debate has no or one non-discarded, confirmed submission.
\<close>

theorem at_most_one_confirmed_submission:
  assumes "\<forall>d. confirmed_count s d \<le> 1"
  shows "confirmed_count (run s ops) d = 0 \<or> confirmed_count (run s ops) d = 1"
proof -
  from assms have "at_most_one_confirmed s"
    by (simp add: at_most_one_confirmed_def)
  then have "at_most_one_confirmed (run s ops)"
    by (rule run_invariant)
  then have "confirmed_count (run s ops) d \<le> 1"
    by (simp add: at_most_one_confirmed_def)
  then show ?thesis by arith
qed

text \<open>
  Claim C1 on a debate with two submissions that are confirmed one after the other: the
  second confirmation unconfirms the first.
\<close>

theorem at_most_one_confirmed_submission_witness:
  "map confirmed (ballotsubs (run chaired_db (take 3 confirm_twice))) = [True, False] \<and>
   map confirmed (ballotsubs (run chaired_db confirm_twice)) = [False, True] \<and>
   confirmed_count (run chaired_db confirm_twice) 0 = 1"
proof -
  have start: "\<forall>d. confirmed_count chaired_db d \<le> 1"
    by (simp add: confirmed_count_def chaired_db_def no_chair_db_def)
  have before: "map confirmed (ballotsubs (run chaired_db (take 3 confirm_twice))) = [True, False]"
    by code_simp
  have after: "map confirmed (ballotsubs (run chaired_db confirm_twice)) = [False, True]"
    by code_simp
  have "confirmed_count (run chaired_db confirm_twice) 0 \<noteq> 0"
    by code_simp
  with at_most_one_confirmed_submission [OF start, of confirm_twice 0]
  have "confirmed_count (run chaired_db confirm_twice) 0 = 1"
    by simp
  with before after show ?thesis by simp
qed

end
